(* ===== verification/Prelude.thy ===== *)
theory Prelude imports Main "HOL-Library.Word" begin

text \<open>
  Shared vocabulary of the development.

  A Go value of type \<^verbatim>\<open>[]byte\<close> is a list of 8-bit words, a \<^verbatim>\<open>uint64\<close> or \<^verbatim>\<open>int64\<close> is
  the 64-bit word holding its bits (read with \<open>unat\<close> or \<open>sint\<close>), a \<^verbatim>\<open>string\<close> is a HOL
  string, whose characters are bytes as the bytes of a Go string are, and a slice length is
  a natural number (a Go slice is shorter than \<open>2 ^ 63\<close>, so the conversions between
  \<^verbatim>\<open>int\<close> and \<^verbatim>\<open>uint64\<close> that the source applies to lengths are exact).

  A call that may return an error or panic has a result of type \<open>'a outcome\<close>.  Errors are
  values: a sentinel of the source is a constructor, \<open>Errorf\<close> is an error made by
  \<^verbatim>\<open>errors.New\<close> or by \<^verbatim>\<open>fmt.Errorf\<close> without a wrapped error (its string is the fixed part
  of the message), and \<open>Wrap\<close> is \<^verbatim>\<open>fmt.Errorf\<close> with one \<^verbatim>\<open>%w\<close>.  Text interpolated with
  \<^verbatim>\<open>%v\<close>, \<^verbatim>\<open>%q\<close> or \<^verbatim>\<open>%d\<close> is not kept: no code of the library reads it.

  The locales at the end are the contracts that the codecs of the library promise to each
  other and that their clients use.
\<close>

unbundle bit_operations_syntax

named_theorems outcome_simps
named_theorems wire_simps

type_synonym byte = "8 word"
type_synonym bytes = "8 word list"
type_synonym u64 = "64 word"

section \<open>Sums over updated lists\<close>

lemma sum_list_map_update:
  fixes f :: "'a \<Rightarrow> nat"
  assumes "i < length xs"
  shows "sum_list (map f (xs[i := x])) + f (xs ! i) = sum_list (map f xs) + f x"
proof -
  have "f (xs ! i) \<le> sum_list (map f xs)" using assms by (intro member_le_sum_list) auto
  then show ?thesis using assms by (simp add: map_update sum_list_update)
qed

section \<open>Errors and outcomes\<close>

datatype error =
    ErrShortBuffer
  | ErrFrameTooLarge
  | ErrCancelled
  | ErrBudgetExceeded
  | ErrDeadlineExceeded
  | ErrDelegateFailed
  | ErrBadSignature
  | ErrStaleTimestamp
  | ErrReplayedNonce
  | ErrUnresolvableDID
  | ErrKeyMismatch
  | ErrNoAIREv1Service
  | ErrAlsoKnownAsMismatch
  | ErrUnsupportedDIDMethod
  | ErrMalformedHandle
  | ErrMalformedDIDWeb
  | ErrIncompatibleVersion
  | ErrMissingRequiredCapability
  | ErrMalformedHello
  | ErrProtocolViolation
  | EOF
  | ErrUnexpectedEOF
  | Errorf string
  | Wrap string error

fun errors_Is :: "error \<Rightarrow> error \<Rightarrow> bool" where
  "errors_Is (Wrap s e) t = (Wrap s e = t \<or> errors_Is e t)"
| "errors_Is e t = (e = t)"

lemma errors_Is_refl [simp]: "errors_Is e e"
  by (cases e) simp_all

datatype 'a outcome = Ok 'a | Err error | Panic

fun obind :: "'a outcome \<Rightarrow> ('a \<Rightarrow> 'b outcome) \<Rightarrow> 'b outcome" where
  "obind (Ok x) f = f x"
| "obind (Err e) f = Err e"
| "obind Panic f = Panic"

text \<open>\<open>on_err h m\<close>: the branch \<^verbatim>\<open>if err != nil { return ..., h(err) }\<close> after a call.\<close>

fun on_err :: "(error \<Rightarrow> error) \<Rightarrow> 'a outcome \<Rightarrow> 'a outcome" where
  "on_err h (Ok x) = Ok x"
| "on_err h (Err e) = Err (h e)"
| "on_err h Panic = Panic"

lemma obind_eq_Ok_iff [outcome_simps]:
  "obind m f = Ok y \<longleftrightarrow> (\<exists>x. m = Ok x \<and> f x = Ok y)"
  by (cases m) auto

lemma obind_eq_Panic_iff [outcome_simps]:
  "obind m f = Panic \<longleftrightarrow> m = Panic \<or> (\<exists>x. m = Ok x \<and> f x = Panic)"
  by (cases m) auto

lemma obind_eq_Err_iff [outcome_simps]:
  "obind m f = Err e \<longleftrightarrow> m = Err e \<or> (\<exists>x. m = Ok x \<and> f x = Err e)"
  by (cases m) auto

lemma on_err_eq_Ok_iff [simp]: "on_err h m = Ok x \<longleftrightarrow> m = Ok x"
  by (cases m) auto

lemma on_err_eq_Panic_iff [simp]: "on_err h m = Panic \<longleftrightarrow> m = Panic"
  by (cases m) auto

lemma on_err_eq_Err_iff [outcome_simps]: "on_err h m = Err e \<longleftrightarrow> (\<exists>e'. m = Err e' \<and> e = h e')"
  by (cases m) auto

lemma on_err_id [simp]: "on_err (\<lambda>e. e) m = m"
  by (cases m) auto

lemma obind_assoc: "obind (obind m f) g = obind m (\<lambda>x. obind (f x) g)"
  by (cases m) auto

lemma obind_cong [fundef_cong]:
  "m = m' \<Longrightarrow> (\<And>x. m' = Ok x \<Longrightarrow> f x = f' x) \<Longrightarrow> obind m f = obind m' f'"
  by (cases m') auto

section \<open>Calls on shared state\<close>

text \<open>Calls on one piece of state, one after another: their results and the final state.\<close>

fun run_calls :: "('s \<Rightarrow> 'c \<Rightarrow> 'r \<times> 's) \<Rightarrow> 's \<Rightarrow> 'c list \<Rightarrow> 'r list \<times> 's" where
  "run_calls f s [] = ([], s)"
| "run_calls f s (c # cs) =
     (let (r, s') = f s c; (rs, s'') = run_calls f s' cs in (r # rs, s''))"

definition call_state :: "('s \<Rightarrow> 'c \<Rightarrow> 'r \<times> 's) \<Rightarrow> 's \<Rightarrow> 'c list \<Rightarrow> nat \<Rightarrow> 's" where
  "call_state f s cs i = snd (run_calls f s (take i cs))"

lemma call_state_0 [simp]: "call_state f s cs 0 = s"
  by (simp add: call_state_def)

lemma call_state_Cons_Suc: "call_state f s (c # cs) (Suc i) = call_state f (snd (f s c)) cs i"
  by (simp add: call_state_def case_prod_beta Let_def)

lemma run_calls_nth: "i < length cs \<Longrightarrow> fst (run_calls f s cs) ! i = fst (f (call_state f s cs i) (cs ! i))"
proof (induction cs arbitrary: s i)
  case (Cons c cs)
  then show ?case by (cases i) (simp_all add: case_prod_beta Let_def call_state_Cons_Suc)
qed simp

lemma call_state_Suc: "i < length cs \<Longrightarrow> call_state f s cs (Suc i) = snd (f (call_state f s cs i) (cs ! i))"
proof (induction cs arbitrary: s i)
  case (Cons c cs)
  then show ?case by (cases i) (simp_all add: call_state_Cons_Suc)
qed simp

lemma call_state_keeps:
  assumes "P (call_state f s cs i)" "i \<le> j" "j \<le> length cs"
    and "\<And>k t. k < j \<Longrightarrow> P t \<Longrightarrow> P (snd (f t (cs ! k)))"
  shows "P (call_state f s cs j)"
  using assms(2,3,4)
proof (induction j rule: dec_induct)
  case (step j)
  then show ?case by (simp add: call_state_Suc)
qed (rule assms(1))

section \<open>Slices\<close>

text \<open>Slice expressions of Go panic out of range; so do the model's.\<close>

definition slice_from :: "nat \<Rightarrow> 'a list \<Rightarrow> 'a list outcome" where
  "slice_from lo xs = (if lo \<le> length xs then Ok (drop lo xs) else Panic)"

definition subslice :: "nat \<Rightarrow> nat \<Rightarrow> 'a list \<Rightarrow> 'a list outcome" where
  "subslice lo hi xs = (if lo \<le> hi \<and> hi \<le> length xs then Ok (take (hi - lo) (drop lo xs)) else Panic)"

definition index :: "nat \<Rightarrow> 'a list \<Rightarrow> 'a outcome" where
  "index i xs = (if i < length xs then Ok (xs ! i) else Panic)"

lemma slice_from_Ok [simp]: "lo \<le> length xs \<Longrightarrow> slice_from lo xs = Ok (drop lo xs)"
  by (simp add: slice_from_def)

lemma subslice_Ok [simp]:
  "lo \<le> hi \<Longrightarrow> hi \<le> length xs \<Longrightarrow> subslice lo hi xs = Ok (take (hi - lo) (drop lo xs))"
  by (simp add: subslice_def)

lemma index_Ok [simp]: "i < length xs \<Longrightarrow> index i xs = Ok (xs ! i)"
  by (simp add: index_def)

text \<open>\<open>from_pos pos data f\<close> is the call \<^verbatim>\<open>f(data[pos:])\<close>.\<close>

definition from_pos :: "nat \<Rightarrow> 'a list \<Rightarrow> ('a list \<Rightarrow> 'b outcome) \<Rightarrow> 'b outcome" where
  "from_pos pos data f = obind (slice_from pos data) f"

lemma from_pos_Ok [wire_simps]: "pos \<le> length data \<Longrightarrow> from_pos pos data f = f (drop pos data)"
  by (simp add: from_pos_def)

lemma from_pos_eq_Ok_iff [outcome_simps]:
  "from_pos pos data f = Ok y \<longleftrightarrow> pos \<le> length data \<and> f (drop pos data) = Ok y"
  by (simp add: from_pos_def slice_from_def)

lemma take_drop_take_append:
  "a + n \<le> k \<Longrightarrow> k \<le> length xs \<Longrightarrow> take n (drop a (take k xs @ ys)) = take n (drop a xs)"
  by (simp add: drop_take)

section \<open>Strings as bytes\<close>

definition byte_of_char :: "char \<Rightarrow> byte" where
  "byte_of_char c = word_of_nat (of_char c)"

definition char_of_byte :: "byte \<Rightarrow> char" where
  "char_of_byte b = char_of (unat b)"

definition bytes_of_string :: "string \<Rightarrow> bytes" where
  "bytes_of_string s = map byte_of_char s"

definition string_of_bytes :: "bytes \<Rightarrow> string" where
  "string_of_bytes b = map char_of_byte b"

lemma char_of_byte_of_char [simp]: "char_of_byte (byte_of_char c) = c"
  using nat_of_char_less_256 [of c]
  by (simp add: char_of_byte_def byte_of_char_def unsigned_of_nat take_bit_nat_eq_self)

lemma byte_of_char_of_byte [simp]: "byte_of_char (char_of_byte b) = b"
proof -
  have "unat b < 2 ^ LENGTH(8)" by (rule unsigned_less)
  then show ?thesis
    by (simp add: char_of_byte_def byte_of_char_def)
qed

lemma string_of_bytes_of_string [simp]: "string_of_bytes (bytes_of_string s) = s"
  by (simp add: string_of_bytes_def bytes_of_string_def comp_def)

lemma bytes_of_string_of_bytes [simp]: "bytes_of_string (string_of_bytes b) = b"
  by (simp add: string_of_bytes_def bytes_of_string_def comp_def)

lemma string_of_bytes_eq_iff: "string_of_bytes b = s \<longleftrightarrow> b = bytes_of_string s"
  by auto

lemma length_bytes_of_string [simp]: "length (bytes_of_string s) = length s"
  by (simp add: bytes_of_string_def)

lemma length_string_of_bytes [simp]: "length (string_of_bytes b) = length b"
  by (simp add: string_of_bytes_def)

lemma bytes_of_string_inject [simp]: "bytes_of_string s = bytes_of_string t \<longleftrightarrow> s = t"
  by (metis string_of_bytes_of_string)

lemma bytes_of_string_append [simp]:
  "bytes_of_string (s @ t) = bytes_of_string s @ bytes_of_string t"
  by (simp add: bytes_of_string_def)

section \<open>Big-endian integers\<close>

text \<open>\<^verbatim>\<open>binary.BigEndian\<close>.  \<^verbatim>\<open>Uint64\<close> reads eight bytes and panics on fewer.\<close>

definition PutUint32 :: "32 word \<Rightarrow> bytes" where
  "PutUint32 v = [ucast (drop_bit 24 v), ucast (drop_bit 16 v), ucast (drop_bit 8 v), ucast v]"

definition PutUint64 :: "u64 \<Rightarrow> bytes" where
  "PutUint64 v =
     [ucast (drop_bit 56 v), ucast (drop_bit 48 v), ucast (drop_bit 40 v), ucast (drop_bit 32 v),
      ucast (drop_bit 24 v), ucast (drop_bit 16 v), ucast (drop_bit 8 v), ucast v]"

definition BE_Uint64 :: "bytes \<Rightarrow> u64 outcome" where
  "BE_Uint64 b =
     (if length b < 8 then Panic
      else Ok (push_bit 56 (ucast (b ! 0)) OR push_bit 48 (ucast (b ! 1)) OR
               push_bit 40 (ucast (b ! 2)) OR push_bit 32 (ucast (b ! 3)) OR
               push_bit 24 (ucast (b ! 4)) OR push_bit 16 (ucast (b ! 5)) OR
               push_bit 8 (ucast (b ! 6)) OR ucast (b ! 7)))"

lemma length_PutUint32 [simp]: "length (PutUint32 v) = 4"
  by (simp add: PutUint32_def)

lemma length_PutUint64 [simp]: "length (PutUint64 v) = 8"
  by (simp add: PutUint64_def)

lemma or_chunk:
  "push_bit k (take_bit m (drop_bit k v)) OR take_bit k v = take_bit (k + m) v"
  for v :: "'a::len word"
  by (rule bit_word_eqI) (auto simp: bit_simps)

lemma ucast_ucast8: "(ucast (ucast v :: byte) :: u64) = take_bit 8 v" for v :: u64
  by (rule bit_word_eqI) (auto simp: bit_simps)

lemmas or_chunks8 =
  or_chunk [of 8 8] or_chunk [of 16 8] or_chunk [of 24 8] or_chunk [of 32 8]
  or_chunk [of 40 8] or_chunk [of 48 8] or_chunk [of 56 8]

lemma take_bit_64_u64 [simp]: "take_bit 64 v = v" for v :: u64
  by (rule bit_word_eqI) (auto simp: bit_simps)

lemma BE_Uint64_PutUint64 [simp]: "BE_Uint64 (PutUint64 v) = Ok v"
  by (simp add: BE_Uint64_def PutUint64_def ucast_ucast8 or_chunks8 [simplified])

section \<open>The contract of a decoder\<close>

text \<open>
  A decoder reads one value from the front of a byte slice and says how many bytes it
  consumed.  It never panics, consumes at least one byte and at most the slice, and looks
  at nothing beyond the bytes it consumed.
\<close>

locale decoder =
  fixes dec :: "bytes \<Rightarrow> ('a \<times> nat) outcome"
  assumes dec_no_panic: "dec bs \<noteq> Panic"
    and dec_bound: "dec bs = Ok (x, n) \<Longrightarrow> 0 < n \<and> n \<le> length bs"
    and dec_prefix: "dec bs = Ok (x, n) \<Longrightarrow> dec (take n bs @ rest) = Ok (x, n)"
begin

lemma dec_append: "dec bs = Ok (x, n) \<Longrightarrow> dec (bs @ rest) = Ok (x, n)"
  using dec_prefix [of bs x n "drop n bs @ rest"] by (simp flip: append_assoc)

lemma dec_agree: "dec bs = Ok (x, n) \<Longrightarrow> take n bs' = take n bs \<Longrightarrow> dec bs' = Ok (x, n)"
  using dec_prefix [of bs x n "drop n bs'"] by (metis append_take_drop_id)

lemma dec_take: "dec bs = Ok (x, n) \<Longrightarrow> dec (take n bs) = Ok (x, n)"
  using dec_prefix [of bs x n "[]"] by simp

lemma dec_nonempty: "dec bs = Ok (x, n) \<Longrightarrow> bs \<noteq> []"
  using dec_bound by fastforce

lemma dec_bounds: "dec bs = Ok (x, n) \<Longrightarrow> n \<le> length bs"
  using dec_bound by blast

text \<open>The step \<^verbatim>\<open>x, n, err := dec(data[pos:]); if err != nil { ... }\<close> of a larger decoder.\<close>

lemma from_pos_Ok_iff:
  "from_pos pos data dec = Ok (x, n) \<longleftrightarrow> dec (drop pos data) = Ok (x, n) \<and> 0 < n \<and> pos + n \<le> length data"
  using dec_bound [of "drop pos data" x n] by (auto simp: from_pos_eq_Ok_iff)

lemma from_pos_agree:
  assumes "from_pos pos data dec = Ok (x, n)" "pos + n \<le> k" "k \<le> length data" "take k data' = take k data"
  shows "from_pos pos data' dec = Ok (x, n)"
proof -
  have len: "k \<le> length data'" using assms(3,4) by (metis length_take min.absorb2 min.cobounded1)
  have "take (pos + n) data' = take (pos + n) data"
    using assms(2,4) by (metis min.absorb1 take_take)
  then have "take n (drop pos data') = take n (drop pos data)" by (simp add: take_drop add.commute)
  then show ?thesis
    using assms(1,2) len dec_agree [of "drop pos data" x n "drop pos data'"] by (auto simp: from_pos_Ok_iff)
qed

lemma from_pos_no_panic: "pos \<le> length data \<Longrightarrow> from_pos pos data dec \<noteq> Panic"
  using dec_no_panic by (simp add: from_pos_Ok)

lemma bind_Ok_iff:
  "obind (from_pos pos data dec) (\<lambda>(x, n). f x n) = Ok y \<longleftrightarrow>
   (\<exists>x n. dec (drop pos data) = Ok (x, n) \<and> pos + n \<le> length data \<and> f x n = Ok y)"
  using dec_bound by (fastforce simp: outcome_simps)

lemma bind_no_panic:
  assumes "pos \<le> length data"
    and "\<And>x n. dec (drop pos data) = Ok (x, n) \<Longrightarrow> pos + n \<le> length data \<Longrightarrow> f x n \<noteq> Panic"
  shows "obind (from_pos pos data dec) (\<lambda>(x, n). f x n) \<noteq> Panic"
  using assms dec_bounds [of "drop pos data"] dec_no_panic [of "drop pos data"]
  by (cases "dec (drop pos data)") (fastforce simp: from_pos_Ok)+

lemma on_err_bind_Ok_iff:
  "obind (on_err h (from_pos pos data dec)) f = Ok y \<longleftrightarrow> obind (from_pos pos data dec) f = Ok y"
  by (simp add: outcome_simps)

lemma on_err_bind_no_panic:
  "obind (from_pos pos data dec) f \<noteq> Panic \<Longrightarrow> obind (on_err h (from_pos pos data dec)) f \<noteq> Panic"
  by (simp add: obind_eq_Panic_iff)

end

text \<open>
  An incremental decoder also tells an incomplete value from a bad one: on a proper prefix
  of what it would consume it reports \<open>ErrShortBuffer\<close>, so its caller can wait for more.
\<close>

definition is_short :: "'a outcome \<Rightarrow> bool" where
  "is_short m = (case m of Err e \<Rightarrow> errors_Is e ErrShortBuffer | _ \<Rightarrow> False)"

lemma is_short_simps [simp]:
  "is_short (Err e) = errors_Is e ErrShortBuffer" "\<not> is_short (Ok x)" "\<not> is_short Panic"
  by (simp_all add: is_short_def)

locale incremental_decoder = decoder +
  assumes dec_truncated: "dec bs = Ok (x, n) \<Longrightarrow> k < n \<Longrightarrow> is_short (dec (take k bs))"
begin

lemma dec_short_or_same:
  assumes "dec bs = Ok (x, n)"
  shows "dec (take k bs) = Ok (x, n) \<and> n \<le> k \<or> is_short (dec (take k bs)) \<and> k < n"
proof (cases "k < n")
  case False
  then have "take n (take k bs) = take n bs" by (simp add: min_absorb1)
  then show ?thesis using dec_agree [OF assms] False by simp
qed (simp add: dec_truncated [OF assms])

end

text \<open>
  A codec adds an encoder whose output, for well-formed values, the decoder reads back.
  Its encodings are then prefix-free, so a value can be followed by anything, and a
  concatenation of encodings is read back one value at a time.
\<close>

fun decode_seq :: "(bytes \<Rightarrow> ('a \<times> nat) outcome) \<Rightarrow> nat \<Rightarrow> bytes \<Rightarrow> ('a list \<times> bytes) outcome" where
  "decode_seq dec 0 bs = Ok ([], bs)"
| "decode_seq dec (Suc k) bs =
     obind (dec bs) (\<lambda>(x, n).
     obind (decode_seq dec k (drop n bs)) (\<lambda>(xs, rest). Ok (x # xs, rest)))"

fun encode_seq :: "('a \<Rightarrow> bytes outcome) \<Rightarrow> 'a list \<Rightarrow> bytes outcome" where
  "encode_seq enc [] = Ok []"
| "encode_seq enc (x # xs) = obind (enc x) (\<lambda>b. obind (encode_seq enc xs) (\<lambda>bs. Ok (b @ bs)))"

locale codec = decoder dec
  for dec :: "bytes \<Rightarrow> ('a \<times> nat) outcome" +
  fixes enc :: "'a \<Rightarrow> bytes outcome" and wf :: "'a \<Rightarrow> bool"
  assumes enc_total: "wf x \<Longrightarrow> \<exists>bs. enc x = Ok bs"
    and dec_enc: "wf x \<Longrightarrow> enc x = Ok bs \<Longrightarrow> dec bs = Ok (x, length bs)"
begin

lemma dec_enc_append: "wf x \<Longrightarrow> enc x = Ok bs \<Longrightarrow> dec (bs @ rest) = Ok (x, length bs)"
  by (rule dec_append [OF dec_enc])

lemma enc_nonempty: "wf x \<Longrightarrow> enc x = Ok bs \<Longrightarrow> bs \<noteq> []"
  by (rule dec_nonempty [OF dec_enc])

lemma enc_prefix_free:
  assumes "wf x" "wf y" "enc x = Ok b" "enc y = Ok c" "b @ r = c @ s"
  shows "x = y \<and> b = c \<and> r = s"
proof -
  have "dec (b @ r) = Ok (x, length b)" "dec (c @ s) = Ok (y, length c)"
    using assms(1-4) by (auto intro: dec_enc_append)
  then show ?thesis using assms(5) by simp
qed

lemma decode_encode_seq:
  "list_all wf xs \<Longrightarrow> encode_seq enc xs = Ok bs \<Longrightarrow>
   decode_seq dec (length xs) (bs @ rest) = Ok (xs, rest)"
  by (induction xs arbitrary: bs) (auto simp: outcome_simps dec_enc_append)

lemma encode_seq_total: "list_all wf xs \<Longrightarrow> \<exists>bs. encode_seq enc xs = Ok bs"
  using enc_total by (induction xs) fastforce+

end

text \<open>
  A payload codec works on whole payloads: the frame around it says where the payload
  ends.  A codec of the first kind gives one of the second.
\<close>

locale payload_codec =
  fixes pdec :: "bytes \<Rightarrow> 'a outcome" and penc :: "'a \<Rightarrow> bytes outcome" and pwf :: "'a \<Rightarrow> bool"
  assumes pdec_no_panic: "pdec bs \<noteq> Panic"
    and penc_total: "pwf x \<Longrightarrow> \<exists>bs. penc x = Ok bs"
    and pdec_penc: "pwf x \<Longrightarrow> penc x = Ok bs \<Longrightarrow> pdec bs = Ok x"
begin

lemma penc_inject: "pwf x \<Longrightarrow> pwf y \<Longrightarrow> penc x = penc y \<Longrightarrow> x = y"
  using penc_total [of x] pdec_penc [of x] pdec_penc [of y] by auto

lemma payload_roundtrip: "pwf x \<Longrightarrow> \<exists>bs. penc x = Ok bs \<and> pdec bs = Ok x"
  using penc_total pdec_penc by blast

end

text \<open>
  A decoder is typed when what it returns is always well-formed, so that it can be sent
  again; a codec is canonical when the encoder moreover never takes more bytes than the
  decoder consumed.
\<close>

locale typed_payload_codec = payload_codec +
  assumes pdec_pwf: "pdec bs = Ok x \<Longrightarrow> pwf x"
begin

lemma payload_reencode: "pdec bs = Ok x \<Longrightarrow> \<exists>cs. penc x = Ok cs \<and> pdec cs = Ok x"
  using pdec_pwf payload_roundtrip by blast

end

locale canonical_codec = codec +
  assumes dec_wf: "dec bs = Ok (x, n) \<Longrightarrow> wf x"
    and enc_shortest: "dec bs = Ok (x, n) \<Longrightarrow> enc x = Ok cs \<Longrightarrow> length cs \<le> n"
begin

lemma reencode:
  assumes "dec bs = Ok (x, n)"
  shows "\<exists>cs. enc x = Ok cs \<and> dec cs = Ok (x, length cs) \<and> length cs \<le> n"
  using enc_total dec_enc enc_shortest [OF assms] dec_wf [OF assms] by metis

end

sublocale codec \<subseteq> payload: payload_codec "\<lambda>bs. obind (dec bs) (\<lambda>(x, n). Ok x)" enc wf
proof
  fix bs show "obind (dec bs) (\<lambda>(x, n). Ok x) \<noteq> Panic"
    using dec_no_panic [of bs] by (auto simp: obind_eq_Panic_iff)
qed (auto simp: enc_total dec_enc)

end
