(* ===== verification/Frame.thy ===== *)
theory Frame imports Prelude begin

text \<open>
  \<^verbatim>\<open>frame.go\<close>: the QUIC-style variable-length integer and the frame envelope, with the
  encoder and the decoder of each.  The encoder of an integer panics above \<open>2 ^ 62 - 1\<close>,
  so every encoder of the library has an outcome; the decoders return errors only.
\<close>

section \<open>Variable-length integers\<close>

definition MaxVarint :: u64 where
  "MaxVarint = 2 ^ 62 - 1"

definition AppendVarint :: "bytes \<Rightarrow> u64 \<Rightarrow> bytes outcome" where
  "AppendVarint dst v =
     (if v > MaxVarint then Panic
      else if v < 2 ^ 6 then Ok (dst @ [ucast v])
      else if v < 2 ^ 14 then Ok (dst @ [ucast (drop_bit 8 v) OR 0x40, ucast v])
      else if v < 2 ^ 30 then
        (let b = PutUint32 (ucast v) in Ok (dst @ b[0 := b ! 0 OR 0x80]))
      else
        (let b = PutUint64 v in Ok (dst @ b[0 := b ! 0 OR 0xC0])))"

definition ReadVarint :: "bytes \<Rightarrow> (u64 \<times> nat) outcome" where
  "ReadVarint data =
     (if length data = 0 then Err ErrShortBuffer
      else if drop_bit 6 (data ! 0) = 0 then Ok (ucast (data ! 0 AND 0x3F), 1)
      else if drop_bit 6 (data ! 0) = 1 then
        (if length data < 2 then Err ErrShortBuffer
         else Ok (push_bit 8 (ucast (data ! 0 AND 0x3F)) OR ucast (data ! 1), 2))
      else if drop_bit 6 (data ! 0) = 2 then
        (if length data < 4 then Err ErrShortBuffer
         else Ok (push_bit 24 (ucast (data ! 0 AND 0x3F)) OR
                  push_bit 16 (ucast (data ! 1)) OR
                  push_bit 8 (ucast (data ! 2)) OR
                  ucast (data ! 3), 4))
      else
        (if length data < 8 then Err ErrShortBuffer
         else Ok (push_bit 56 (ucast (data ! 0 AND 0x3F)) OR
                  push_bit 48 (ucast (data ! 1)) OR
                  push_bit 40 (ucast (data ! 2)) OR
                  push_bit 32 (ucast (data ! 3)) OR
                  push_bit 24 (ucast (data ! 4)) OR
                  push_bit 16 (ucast (data ! 5)) OR
                  push_bit 8 (ucast (data ! 6)) OR
                  ucast (data ! 7), 8)))"

subsection \<open>Bits of the tag byte\<close>

lemma and_3F: "(x :: byte) AND 0x3F = take_bit 6 x"
  by (simp add: take_bit_eq_mask mask_eq_exp_minus_1)

lemma drop6_or:
  "drop_bit 6 ((x :: byte) OR 0x40) = drop_bit 6 x OR 1"
  "drop_bit 6 ((x :: byte) OR 0x80) = drop_bit 6 x OR 2"
  "drop_bit 6 ((x :: byte) OR 0xC0) = drop_bit 6 x OR 3"
  by simp_all

lemma take6_or:
  "take_bit 6 ((x :: byte) OR 0x40) = take_bit 6 x"
  "take_bit 6 ((x :: byte) OR 0x80) = take_bit 6 x"
  "take_bit 6 ((x :: byte) OR 0xC0) = take_bit 6 x"
  by (simp_all add: take_bit_or)

lemma or_3: "drop_bit 6 (x :: byte) OR 3 = 3"
proof -
  have "drop_bit 6 x OR mask 2 = mask 2"
    by (rule bit_word_eqI) (auto simp: bit_simps dest: bit_imp_le_length)
  then show ?thesis by (simp add: mask_eq_exp_minus_1)
qed

lemma ucast_take6: "(ucast (take_bit 6 (ucast v :: byte)) :: u64) = take_bit 6 v" for v :: u64
  by (rule bit_word_eqI) (auto simp: bit_simps)

lemma ucast_drop32:
  "k \<le> 24 \<Longrightarrow> (ucast (drop_bit k (ucast v :: 32 word)) :: byte) = ucast (drop_bit k v)" for v :: u64
  by (rule bit_word_eqI) (auto simp: bit_simps)

lemma take_bit_less: "v < 2 ^ k \<Longrightarrow> take_bit k v = v" for v :: "'a::len word"
  by (metis take_bit_eq_mask less_mask_eq)

lemma drop6_ucast_drop:
  fixes v :: u64
  assumes "v < 2 ^ (k + 6)"
  shows "drop_bit 6 (ucast (drop_bit k v) :: byte) = 0"
proof -
  have "take_bit (k + 6) v = v"
    using assms by (rule take_bit_less)
  then have "\<not> bit v i" if "k + 6 \<le> i" for i
    using that by (metis bit_take_bit_iff linorder_not_less)
  then show ?thesis
    by (intro bit_word_eqI) (auto simp: bit_simps)
qed

subsection \<open>Encoding and decoding an integer\<close>

text \<open>The bytes that \<open>AppendVarint\<close> adds, apart from the buffer it adds them to.\<close>

definition varint :: "u64 \<Rightarrow> bytes" where
  "varint v =
     (if v < 2 ^ 6 then [ucast v]
      else if v < 2 ^ 14 then [ucast (drop_bit 8 v) OR 0x40, ucast v]
      else if v < 2 ^ 30 then (PutUint32 (ucast v))[0 := PutUint32 (ucast v) ! 0 OR 0x80]
      else (PutUint64 v)[0 := PutUint64 v ! 0 OR 0xC0])"

lemma AppendVarint_eq: "AppendVarint dst v = (if v > MaxVarint then Panic else Ok (dst @ varint v))"
  by (simp add: AppendVarint_def varint_def Let_def)

lemma AppendVarint_Ok [wire_simps]: "v \<le> MaxVarint \<Longrightarrow> AppendVarint dst v = Ok (dst @ varint v)"
  by (simp add: AppendVarint_eq)

lemma AppendVarint_eq_Ok_iff:
  "AppendVarint dst v = Ok bs \<longleftrightarrow> v \<le> MaxVarint \<and> bs = dst @ varint v"
  by (auto simp: AppendVarint_eq)

lemma le_MaxVarint_iff: "v \<le> MaxVarint \<longleftrightarrow> unat v < 2 ^ 62"
  by (auto simp: MaxVarint_def word_le_nat_alt)

lemma le_MaxVarint_less: "v \<le> MaxVarint \<Longrightarrow> v < 2 ^ 62"
  by (simp add: le_MaxVarint_iff word_less_nat_alt)

lemma ReadVarint_varint:
  assumes "v \<le> MaxVarint"
  shows "ReadVarint (varint v) = Ok (v, length (varint v))"
proof -
  consider (a) "v < 2 ^ 6" | (b) "\<not> v < 2 ^ 6" "v < 2 ^ 14" | (c) "\<not> v < 2 ^ 6" "\<not> v < 2 ^ 14" "v < 2 ^ 30"
    | (d) "\<not> v < 2 ^ 6" "\<not> v < 2 ^ 14" "\<not> v < 2 ^ 30"
    by blast
  then show ?thesis
  proof cases
    case a
    show ?thesis
      using a drop6_ucast_drop [of v 0] take_bit_less [of v 6]
      by (simp add: varint_def ReadVarint_def and_3F ucast_take6)
  next
    case b
    show ?thesis
      using b drop6_ucast_drop [of v 8] take_bit_less [of v 14] or_chunk [of 8 6 v]
      by (simp add: varint_def ReadVarint_def and_3F take6_or drop6_or ucast_take6 ucast_ucast8 del: drop_bit_or)
  next
    case c
    show ?thesis
      using c drop6_ucast_drop [of v 24] take_bit_less [of v 30] or_chunk [of 24 6 v]
        ucast_drop32 [of 0 v]
      by (simp add: varint_def PutUint32_def ReadVarint_def and_3F take6_or drop6_or ucast_take6
        ucast_ucast8 ucast_drop32 or_chunks8 [simplified])
  next
    case d
    show ?thesis
      using d take_bit_less [OF le_MaxVarint_less [OF assms]] or_chunk [of 56 6 v]
      by (simp add: varint_def PutUint64_def ReadVarint_def and_3F take6_or drop6_or or_3 ucast_take6
        ucast_ucast8 or_chunks8 [simplified])
  qed
qed

lemma ReadVarint_no_panic: "ReadVarint data \<noteq> Panic"
  by (simp add: ReadVarint_def)

lemma ReadVarint_size:
  "ReadVarint data = Ok (v, n) \<Longrightarrow> n \<in> {1, 2, 4, 8} \<and> n \<le> length data"
  by (auto simp: ReadVarint_def Suc_le_eq split: if_splits)

lemma nth_take_append: "i < n \<Longrightarrow> n \<le> length xs \<Longrightarrow> (take n xs @ ys) ! i = xs ! i"
  by (simp add: nth_append)

lemma ReadVarint_prefix:
  assumes "ReadVarint data = Ok (v, n)"
  shows "ReadVarint (take n data @ rest) = Ok (v, n)"
proof -
  have n: "n \<in> {1, 2, 4, 8}" "n \<le> length data"
    using ReadVarint_size [OF assms] by auto
  then have len: "\<not> length (take n data @ rest) < n" "length (take n data @ rest) \<noteq> 0"
    by auto
  show ?thesis
    using assms n len unfolding ReadVarint_def
    by (auto simp: nth_take_append split: if_splits)
qed

lemma take_bit_push_byte:
  "k + 8 \<le> m \<Longrightarrow> take_bit m (push_bit k (ucast x)) = push_bit k (ucast x)" for x :: byte
  by (rule bit_word_eqI) (auto simp: bit_simps dest: bit_imp_le_length)

lemma take_bit_byte: "8 \<le> m \<Longrightarrow> take_bit m (ucast x) = (ucast x :: u64)" for x :: byte
  using take_bit_push_byte [of 0 m x] by simp

lemma take_bit_push_6:
  "k + 6 \<le> m \<Longrightarrow>
   take_bit m (push_bit k (ucast (take_bit 6 x))) = push_bit k (ucast (take_bit 6 x))" for x :: byte
  by (rule bit_word_eqI) (auto simp: bit_simps)

lemma ReadVarint_take_bit:
  assumes "ReadVarint data = Ok (v, n)"
  shows "take_bit (8 * n - 2) v = v"
  using assms take_bit_push_6 [of 0 6]
  by (auto simp: ReadVarint_def and_3F take_bit_byte take_bit_push_byte take_bit_push_6 take_bit_or split: if_splits)

lemma ReadVarint_value:
  assumes "ReadVarint data = Ok (v, n)"
  shows "unat v < 2 ^ (8 * n - 2)"
proof -
  have "unat (take_bit (8 * n - 2) v) < 2 ^ (8 * n - 2)"
    by (simp add: unsigned_take_bit_eq)
  then show ?thesis using ReadVarint_take_bit [OF assms] by simp
qed

lemma ReadVarint_le_MaxVarint: "ReadVarint data = Ok (v, n) \<Longrightarrow> v \<le> MaxVarint"
proof -
  assume a: "ReadVarint data = Ok (v, n)"
  have "(2 :: nat) ^ (8 * n - 2) \<le> 2 ^ 62"
    using ReadVarint_size [OF a] by auto
  then show "v \<le> MaxVarint"
    using ReadVarint_value [OF a] by (simp add: le_MaxVarint_iff)
qed

lemma length_varint:
  "length (varint v) =
     (if unat v < 2 ^ 6 then 1 else if unat v < 2 ^ 14 then 2 else if unat v < 2 ^ 30 then 4 else 8)"
  by (simp add: varint_def word_less_nat_alt)

lemma varint_nonempty [simp]: "varint v \<noteq> []"
  by (simp add: varint_def PutUint32_def PutUint64_def)

lemma varint_shortest: "ReadVarint data = Ok (v, n) \<Longrightarrow> length (varint v) \<le> n"
  using ReadVarint_size [of data v n] ReadVarint_value [of data v n]
  by (auto simp: length_varint)

interpretation varint: codec ReadVarint "AppendVarint []" "\<lambda>v. v \<le> MaxVarint"
proof unfold_locales
  fix bs v n assume "ReadVarint bs = Ok (v, n)"
  then show "0 < n \<and> n \<le> length bs" using ReadVarint_size by fastforce
qed (auto simp: ReadVarint_no_panic ReadVarint_prefix AppendVarint_eq ReadVarint_varint split: if_splits)

lemma ReadVarint_truncated:
  assumes "ReadVarint data = Ok (v, n)" "k < n"
  shows "ReadVarint (take k data) = Err ErrShortBuffer"
proof (cases k)
  case (Suc j)
  then have "take k data ! 0 = data ! 0" by simp
  then show ?thesis
    using assms Suc ReadVarint_size [OF assms(1)]
    by (auto simp: ReadVarint_def split: if_splits)
qed (simp add: ReadVarint_def)

interpretation varint_canonical: canonical_codec ReadVarint "AppendVarint []" "\<lambda>v. v \<le> MaxVarint"
  by unfold_locales (auto simp: AppendVarint_eq ReadVarint_le_MaxVarint varint_shortest split: if_splits)

interpretation varint_stream: incremental_decoder ReadVarint
  by unfold_locales (simp add: ReadVarint_truncated)

lemmas ReadVarint_append [wire_simps] =
  varint.dec_append [OF ReadVarint_varint]

section \<open>Frames\<close>

abbreviation (input) FrameHello :: byte where "FrameHello \<equiv> 0x01"
abbreviation (input) FrameInvoke :: byte where "FrameInvoke \<equiv> 0x03"
abbreviation (input) FrameStream :: byte where "FrameStream \<equiv> 0x04"
abbreviation (input) FrameCancel :: byte where "FrameCancel \<equiv> 0x05"
abbreviation (input) FrameBudget :: byte where "FrameBudget \<equiv> 0x06"
abbreviation (input) FrameDelegate :: byte where "FrameDelegate \<equiv> 0x07"
abbreviation (input) FrameError :: byte where "FrameError \<equiv> 0x08"
abbreviation (input) FrameGoodbye :: byte where "FrameGoodbye \<equiv> 0x09"

definition MaxFrameSize :: u64 where
  "MaxFrameSize = 2 ^ 20"

record Frame =
  f_Type :: byte
  f_Flags :: byte
  f_OpID :: u64
  f_Payload :: bytes

definition Frame_AppendEncode :: "Frame \<Rightarrow> bytes \<Rightarrow> bytes outcome" where
  "Frame_AppendEncode f dst =
     obind (AppendVarint (dst @ [f_Type f, f_Flags f]) (f_OpID f)) (\<lambda>dst.
     obind (AppendVarint dst (word_of_nat (length (f_Payload f)))) (\<lambda>dst.
     Ok (dst @ f_Payload f)))"

definition Frame_Encode :: "Frame \<Rightarrow> bytes outcome" where
  "Frame_Encode f = Frame_AppendEncode f []"

definition Decode :: "bytes \<Rightarrow> (Frame \<times> nat) outcome" where
  "Decode data =
     (if length data < 2 then Err ErrShortBuffer
      else
        obind (index 0 data) (\<lambda>ty.
        obind (index 1 data) (\<lambda>flags.
        let pos = 2 in
        obind (from_pos pos data ReadVarint) (\<lambda>(opid, n).
        let pos = pos + n in
        obind (from_pos pos data ReadVarint) (\<lambda>(plen, n).
        let pos = pos + n in
        if plen > MaxFrameSize then Err ErrFrameTooLarge
        else if length data - pos < unat plen then Err ErrShortBuffer
        else
          obind (if plen > 0 then subslice pos (pos + unat plen) data else Ok []) (\<lambda>payload.
          Ok (\<lparr>f_Type = ty, f_Flags = flags, f_OpID = opid, f_Payload = payload\<rparr>,
              pos + unat plen)))))))"

text \<open>The frames that a peer can send and this library accepts back.\<close>

definition Frame_wf :: "Frame \<Rightarrow> bool" where
  "Frame_wf f \<longleftrightarrow> f_OpID f \<le> MaxVarint \<and> length (f_Payload f) \<le> unat MaxFrameSize"

lemma unat_MaxFrameSize [simp]: "unat MaxFrameSize = 2 ^ 20"
  by (simp add: MaxFrameSize_def)

lemma unat_length [wire_simps]: "n < 2 ^ 62 \<Longrightarrow> unat (word_of_nat n :: u64) = n"
  by (simp add: unsigned_of_nat take_bit_nat_eq_self)

lemma length_le_MaxVarint [wire_simps]: "n < 2 ^ 62 \<Longrightarrow> (word_of_nat n :: u64) \<le> MaxVarint"
  by (simp add: le_MaxVarint_iff unat_length)

lemma Frame_AppendEncode_Ok:
  assumes "Frame_wf f"
  shows "Frame_AppendEncode f dst =
    Ok (dst @ [f_Type f, f_Flags f] @ varint (f_OpID f) @
        varint (word_of_nat (length (f_Payload f))) @ f_Payload f)"
  using assms by (simp add: Frame_AppendEncode_def Frame_wf_def wire_simps)

lemma copy_payload:
  "pos + unat n \<le> length data \<Longrightarrow>
   (if n > 0 then subslice pos (pos + unat n) data else Ok []) = Ok (take (unat n) (drop pos data))"
  for n :: u64
  by (simp add: word_gt_0)

lemma Decode_eq_Ok_iff:
  "Decode data = Ok (f, k) \<longleftrightarrow>
   (\<exists>opid n plen m. 2 \<le> length data \<and>
      ReadVarint (drop 2 data) = Ok (opid, n) \<and>
      ReadVarint (drop (2 + n) data) = Ok (plen, m) \<and>
      plen \<le> MaxFrameSize \<and> k = 2 + n + m + unat plen \<and> k \<le> length data \<and>
      f = \<lparr>f_Type = data ! 0, f_Flags = data ! 1, f_OpID = opid,
           f_Payload = take (unat plen) (drop (2 + n + m) data)\<rparr>)"
proof (cases "2 \<le> length data")
  case True
  then have "data \<noteq> []" "Suc 0 < length data" by auto
  then show ?thesis
    using True
    by (auto simp: Decode_def Let_def varint.bind_Ok_iff copy_payload not_less simp del: add_2_eq_Suc
        split: if_splits cong: conj_cong)
next
  case False
  then show ?thesis by (simp add: Decode_def)
qed

lemma Decode_no_panic: "Decode data \<noteq> Panic"
proof (cases "length data < 2")
  case False
  then have "data \<noteq> []" "Suc 0 < length data" by auto
  with False show ?thesis
    by (simp add: Decode_def Let_def) (intro varint.bind_no_panic; simp add: not_less)
qed (simp add: Decode_def)

lemma Decode_prefix:
  assumes "Decode data = Ok (f, k)"
  shows "Decode (take k data @ rest) = Ok (f, k)"
proof -
  obtain opid n plen m where d: "2 \<le> length data" "ReadVarint (drop 2 data) = Ok (opid, n)"
      "ReadVarint (drop (2 + n) data) = Ok (plen, m)" "plen \<le> MaxFrameSize"
      "k = 2 + n + m + unat plen" "k \<le> length data"
      "f = \<lparr>f_Type = data ! 0, f_Flags = data ! 1, f_OpID = opid,
            f_Payload = take (unat plen) (drop (2 + n + m) data)\<rparr>"
    using assms unfolding Decode_eq_Ok_iff by blast
  let ?data = "take k data @ rest"
  have "ReadVarint (drop 2 ?data) = Ok (opid, n)"
    using d by (intro varint.dec_agree [OF d(2)] take_drop_take_append) auto
  moreover have "ReadVarint (drop (2 + n) ?data) = Ok (plen, m)"
    using d by (intro varint.dec_agree [OF d(3)] take_drop_take_append) auto
  moreover have "take (unat plen) (drop (2 + n + m) ?data) = take (unat plen) (drop (2 + n + m) data)"
    using d by (intro take_drop_take_append) auto
  ultimately show ?thesis
    using d by (auto simp: Decode_eq_Ok_iff nth_take_append)
qed

lemma Decode_bound: "Decode data = Ok (f, k) \<Longrightarrow> 4 \<le> k \<and> k \<le> length data"
  by (auto simp: Decode_eq_Ok_iff dest!: varint.dec_bound)

lemma Decode_wf: "Decode data = Ok (f, k) \<Longrightarrow> Frame_wf f"
  by (auto simp: Decode_eq_Ok_iff Frame_wf_def word_le_nat_alt dest: ReadVarint_le_MaxVarint)

lemma Decode_Encode:
  assumes "Frame_wf f" "Frame_Encode f = Ok bs"
  shows "Decode bs = Ok (f, length bs)"
proof -
  let ?p = "f_Payload f" and ?len = "word_of_nat (length (f_Payload f)) :: u64"
  have w: "f_OpID f \<le> MaxVarint" "length ?p < 2 ^ 62" "?len \<le> MaxVarint"
    using assms(1) by (auto simp: Frame_wf_def wire_simps)
  have len: "unat ?len = length ?p" "?len \<le> MaxFrameSize"
    using assms(1) w by (auto simp: Frame_wf_def wire_simps word_le_nat_alt)
  have bs: "bs = [f_Type f, f_Flags f] @ varint (f_OpID f) @ varint ?len @ ?p"
    using assms by (simp add: Frame_Encode_def Frame_AppendEncode_Ok)
  have "ReadVarint (drop 2 bs) = Ok (f_OpID f, length (varint (f_OpID f)))"
    using w by (simp add: bs ReadVarint_append)
  moreover have "ReadVarint (drop (2 + length (varint (f_OpID f))) bs) = Ok (?len, length (varint ?len))"
    using w by (simp add: bs ReadVarint_append)
  ultimately show ?thesis
    using len by (simp add: Decode_eq_Ok_iff bs)
qed

interpretation frame: codec Decode Frame_Encode Frame_wf
proof unfold_locales
  fix bs f n assume "Decode bs = Ok (f, n)"
  then show "0 < n \<and> n \<le> length bs" using Decode_bound by fastforce
qed (auto simp: Decode_no_panic Decode_prefix Decode_Encode Frame_Encode_def Frame_AppendEncode_Ok)

lemma Decode_truncated:
  assumes "Decode data = Ok (f, k)" "j < k"
  shows "Decode (take j data) = Err ErrShortBuffer"
proof -
  obtain opid n plen m where d: "2 \<le> length data" "ReadVarint (drop 2 data) = Ok (opid, n)"
      "ReadVarint (drop (2 + n) data) = Ok (plen, m)" "plen \<le> MaxFrameSize"
      "k = 2 + n + m + unat plen" "k \<le> length data"
    using assms unfolding Decode_eq_Ok_iff by blast
  let ?data = "take j data"
  have len: "length ?data = j" using d assms(2) by simp
  consider "j < 2" | "2 \<le> j" "j - 2 < n" | "2 + n \<le> j" "j - (2 + n) < m" | "2 + n + m \<le> j"
    by linarith
  then show ?thesis
  proof cases
    case 1
    then show ?thesis using len by (simp add: Decode_def)
  next
    case 2
    then have "?data \<noteq> []" "Suc 0 < length ?data" "\<not> length ?data < 2" using len by auto
    moreover have "ReadVarint (drop 2 ?data) = Err ErrShortBuffer"
      using ReadVarint_truncated [OF d(2), of "j - 2"] 2 by (simp add: drop_take)
    ultimately show ?thesis using len by (simp add: Decode_def from_pos_Ok)
  next
    case 3
    then have "?data \<noteq> []" "Suc 0 < length ?data" "\<not> length ?data < 2" using len by auto
    moreover have "ReadVarint (drop 2 ?data) = Ok (opid, n)"
      using 3 by (intro varint.dec_agree [OF d(2)]) (simp add: drop_take min_def)
    moreover have "ReadVarint (drop (2 + n) ?data) = Err ErrShortBuffer"
      using ReadVarint_truncated [OF d(3), of "j - (2 + n)"] 3 by (simp add: drop_take)
    ultimately show ?thesis using len 3 by (simp add: Decode_def Let_def from_pos_Ok del: add_2_eq_Suc)
  next
    case 4
    then have "?data \<noteq> []" "Suc 0 < length ?data" "\<not> length ?data < 2" using len by auto
    moreover have "ReadVarint (drop 2 ?data) = Ok (opid, n)" "ReadVarint (drop (2 + n) ?data) = Ok (plen, m)"
      using 4 by (intro varint.dec_agree [OF d(2)] varint.dec_agree [OF d(3)]; simp add: drop_take min_def)+
    moreover have "j - (2 + n + m) < unat plen" using assms(2) d 4 by linarith
    ultimately show ?thesis
      using len 4 d(4) by (simp add: Decode_def Let_def from_pos_Ok del: add_2_eq_Suc)
  qed
qed

lemma Encode_shortest:
  assumes "Decode data = Ok (f, k)" "Frame_Encode f = Ok bs" shows "length bs \<le> k"
proof -
  obtain opid n plen m where d: "ReadVarint (drop 2 data) = Ok (opid, n)" "ReadVarint (drop (2 + n) data) = Ok (plen, m)"
      "k = 2 + n + m + unat plen" "k \<le> length data" "f_OpID f = opid" "length (f_Payload f) = unat plen"
    using assms(1) unfolding Decode_eq_Ok_iff by auto
  have "length bs = 2 + length (varint opid) + length (varint plen) + unat plen"
    using assms(2) Frame_AppendEncode_Ok [OF Decode_wf [OF assms(1)], of "[]"] d(5,6) by (auto simp: Frame_Encode_def)
  then show ?thesis using varint_shortest [OF d(1)] varint_shortest [OF d(2)] d(3) by simp
qed

interpretation frame_canonical: canonical_codec Decode Frame_Encode Frame_wf
  by unfold_locales (auto intro: Decode_wf Encode_shortest)

interpretation frame_stream: incremental_decoder Decode
  by unfold_locales (simp add: Decode_truncated)

section \<open>Properties\<close>

text \<open>
  Integer round trip.  Every value up to \<open>MaxVarint\<close> is appended without touching the
  buffer before it, and reading the appended bytes, whatever follows them, gives the value
  and its length back.
\<close>

theorem varint_roundtrip:
  assumes "v \<le> MaxVarint"
  shows "\<exists>bs. AppendVarint dst v = Ok (dst @ bs) \<and> ReadVarint (bs @ rest) = Ok (v, length bs)"
  using assms by (simp add: AppendVarint_Ok ReadVarint_append)

theorem varint_roundtrip_witness:
  "(1152921504606846976 :: u64) \<le> MaxVarint \<and>
   (\<exists>bs. AppendVarint [7] 1152921504606846976 = Ok ([7] @ bs) \<and>
         ReadVarint (bs @ [9]) = Ok (1152921504606846976, length bs))"
proof -
  have h: "(1152921504606846976 :: u64) \<le> MaxVarint" by (simp add: MaxVarint_def)
  show ?thesis using h varint_roundtrip [OF h, of "[7]" "[9]"] by blast
qed

text \<open>
  Shortest encoding.  No byte sequence that decodes to a value is shorter than the
  encoding the library emits for it: the reader accepts longer forms, the writer never
  produces one.
\<close>

theorem varint_encoding_shortest:
  assumes "ReadVarint data = Ok (v, n)"
  shows "\<exists>bs. AppendVarint [] v = Ok bs \<and> length bs \<le> n \<and> ReadVarint bs = Ok (v, length bs)"
  using assms
  by (simp add: AppendVarint_Ok ReadVarint_varint ReadVarint_le_MaxVarint varint_shortest)

theorem varint_encoding_shortest_witness:
  "ReadVarint [0x40, 0x25] = Ok (0x25, 2) \<and>
   (\<exists>bs. AppendVarint [] 0x25 = Ok bs \<and> length bs \<le> 2 \<and> ReadVarint bs = Ok (0x25, length bs))"
proof -
  have h: "ReadVarint [0x40, 0x25] = Ok (0x25, 2)" by (simp add: ReadVarint_def)
  show ?thesis using h varint_encoding_shortest [OF h] by blast
qed

text \<open>
  C21 (frame round trip).  A frame whose operation number fits an integer of the wire and
  whose payload is at most \<open>MaxFrameSize\<close> bytes encodes without a panic, and decoding the
  encoding, whatever follows it, gives exactly the frame and its length.
\<close>

theorem frame_roundtrip:
  assumes "f_OpID f \<le> MaxVarint" "length (f_Payload f) \<le> unat MaxFrameSize"
  shows "\<exists>bs. Frame_Encode f = Ok bs \<and> Decode (bs @ rest) = Ok (f, length bs)"
proof -
  have wf: "Frame_wf f" using assms by (simp add: Frame_wf_def)
  then obtain bs where "Frame_Encode f = Ok bs" using frame.enc_total by blast
  then show ?thesis using frame.dec_enc_append [OF wf] by blast
qed

theorem frame_roundtrip_witness:
  "\<exists>bs. Frame_Encode \<lparr>f_Type = FrameInvoke, f_Flags = 0, f_OpID = 42, f_Payload = [0x68, 0x69]\<rparr> = Ok bs \<and>
        bs = [0x03, 0x00, 0x2a, 0x02, 0x68, 0x69] \<and>
        Decode (bs @ [1]) =
          Ok (\<lparr>f_Type = FrameInvoke, f_Flags = 0, f_OpID = 42, f_Payload = [0x68, 0x69]\<rparr>, length bs)"
proof -
  let ?f = "\<lparr>f_Type = FrameInvoke, f_Flags = 0, f_OpID = 42, f_Payload = [0x68, 0x69]\<rparr>"
  have e: "Frame_Encode ?f = Ok [0x03, 0x00, 0x2a, 0x02, 0x68, 0x69]"
    by (simp add: Frame_Encode_def Frame_AppendEncode_def AppendVarint_def MaxVarint_def)
  have h: "f_OpID ?f \<le> MaxVarint" "length (f_Payload ?f) \<le> unat MaxFrameSize"
    by (simp_all add: MaxVarint_def)
  show ?thesis using frame_roundtrip [OF h, of "[1]"] e by auto
qed

text \<open>
  Frames on a stream.  Frames appended one after another to a buffer are read back in
  order, each \<open>Decode\<close> starting where the one before stopped, and what follows the last
  frame is left untouched.
\<close>

theorem frame_stream_roundtrip:
  assumes "list_all Frame_wf fs"
  shows "\<exists>bs. encode_seq Frame_Encode fs = Ok bs \<and>
              decode_seq Decode (length fs) (bs @ rest) = Ok (fs, rest)"
  using frame.encode_seq_total [OF assms] frame.decode_encode_seq [OF assms] by blast

theorem frame_stream_roundtrip_witness:
  "list_all Frame_wf [\<lparr>f_Type = FrameHello, f_Flags = 0, f_OpID = 0, f_Payload = []\<rparr>,
                      \<lparr>f_Type = FrameStream, f_Flags = 1, f_OpID = 4, f_Payload = [7, 8]\<rparr>] \<and>
   (\<exists>bs. encode_seq Frame_Encode
           [\<lparr>f_Type = FrameHello, f_Flags = 0, f_OpID = 0, f_Payload = []\<rparr>,
            \<lparr>f_Type = FrameStream, f_Flags = 1, f_OpID = 4, f_Payload = [7, 8]\<rparr>] = Ok bs \<and>
         decode_seq Decode 2 (bs @ [9]) =
           Ok ([\<lparr>f_Type = FrameHello, f_Flags = 0, f_OpID = 0, f_Payload = []\<rparr>,
                \<lparr>f_Type = FrameStream, f_Flags = 1, f_OpID = 4, f_Payload = [7, 8]\<rparr>], [9]))"
proof -
  let ?fs = "[\<lparr>f_Type = FrameHello, f_Flags = 0, f_OpID = 0, f_Payload = []\<rparr>,
              \<lparr>f_Type = FrameStream, f_Flags = 1, f_OpID = 4, f_Payload = [7, 8]\<rparr>] :: Frame list"
  have h: "list_all Frame_wf ?fs" by (simp add: Frame_wf_def MaxVarint_def)
  have "length ?fs = 2" by simp
  then show ?thesis using h frame_stream_roundtrip [OF h, of "[9]"] by metis
qed

text \<open>
  C23 (decoding untrusted bytes).  On every input \<open>Decode\<close> returns: it never panics, never
  claims more bytes than it was given, and the payload it allocates is at most
  \<open>MaxFrameSize\<close> bytes whatever length the input declares.
\<close>

theorem frame_decode_safe:
  "Decode data \<noteq> Panic \<and>
   (\<forall>f k. Decode data = Ok (f, k) \<longrightarrow>
      4 \<le> k \<and> k \<le> length data \<and> length (f_Payload f) \<le> 2 ^ 20 \<and> f_OpID f \<le> MaxVarint)"
  using Decode_no_panic Decode_bound Decode_wf by (fastforce simp: Frame_wf_def)

theorem frame_decode_safe_witness:
  "Decode [0x09, 0, 0, 0] = Ok (\<lparr>f_Type = FrameGoodbye, f_Flags = 0, f_OpID = 0, f_Payload = []\<rparr>, 4) \<and>
   (4 :: nat) \<le> length ([0x09, 0, 0, 0] :: bytes) \<and> Decode [0x09, 0, 0, 0] \<noteq> Panic"
proof -
  have d: "Decode [0x09, 0, 0, 0] =
      Ok (\<lparr>f_Type = FrameGoodbye, f_Flags = 0, f_OpID = 0, f_Payload = []\<rparr>, 4)"
    by (simp add: Decode_def ReadVarint_def from_pos_def MaxFrameSize_def)
  show ?thesis using frame_decode_safe [of "[0x09, 0, 0, 0]"] d by blast
qed

text \<open>
  C22 (incomplete and over-long input).  When a byte sequence holds a frame of \<open>k\<close> bytes,
  every shorter prefix is reported as \<open>ErrShortBuffer\<close> and every input that starts with
  those \<open>k\<close> bytes decodes to the same frame, so a caller may retry with more data.
\<close>

theorem frame_decode_incremental:
  assumes "Decode data = Ok (f, k)"
  shows "(j < k \<longrightarrow> Decode (take j data) = Err ErrShortBuffer) \<and> Decode (take k data @ rest) = Ok (f, k)"
  using Decode_truncated [OF assms] Decode_prefix [OF assms] by blast

theorem frame_decode_incremental_witness:
  "Decode [0x05, 0, 5, 1, 7, 9] = Ok (\<lparr>f_Type = FrameCancel, f_Flags = 0, f_OpID = 5, f_Payload = [7]\<rparr>, 5) \<and>
   Decode (take 4 [0x05, 0, 5, 1, 7, 9]) = Err ErrShortBuffer"
proof -
  have d: "Decode [0x05, 0, 5, 1, 7, 9] =
      Ok (\<lparr>f_Type = FrameCancel, f_Flags = 0, f_OpID = 5, f_Payload = [7]\<rparr>, 5)"
    by (simp add: Decode_def ReadVarint_def from_pos_def MaxFrameSize_def)
  show ?thesis using d frame_decode_incremental [OF d, of 4 "[]"] by simp
qed

end
