(* ===== verification/Wire.thy ===== *)
theory Wire imports Frame begin

text \<open>
  The length-prefixed string of the wire format (\<^verbatim>\<open>appendString\<close> and \<^verbatim>\<open>readString\<close> of
  \<^verbatim>\<open>handshake.go\<close>), which the CANCEL, INVOKE and HELLO payloads and the signature block
  are made of.
\<close>

definition appendString :: "bytes \<Rightarrow> string \<Rightarrow> bytes outcome" where
  "appendString dst s =
     obind (AppendVarint dst (word_of_nat (length s))) (\<lambda>dst.
     Ok (dst @ bytes_of_string s))"

definition readString :: "bytes \<Rightarrow> (string \<times> nat) outcome" where
  "readString data =
     obind (ReadVarint data) (\<lambda>(len, n).
     if length data - n < unat len then Err ErrShortBuffer
     else
       let hi = n + unat len in
       obind (subslice n hi data) (\<lambda>b. Ok (string_of_bytes b, hi)))"

text \<open>The bytes of an encoded string, apart from the buffer they are appended to.\<close>

definition wire_string :: "string \<Rightarrow> bytes" where
  "wire_string s = varint (word_of_nat (length s)) @ bytes_of_string s"

lemma appendString_Ok [wire_simps]:
  "length s < 2 ^ 62 \<Longrightarrow> appendString dst s = Ok (dst @ wire_string s)"
  by (simp add: appendString_def wire_string_def AppendVarint_Ok length_le_MaxVarint)

lemma readString_eq:
  "readString data =
     obind (ReadVarint data) (\<lambda>(len, n).
     if length data < n + unat len then Err ErrShortBuffer
     else Ok (string_of_bytes (take (unat len) (drop n data)), n + unat len))"
proof (cases "ReadVarint data")
  case (Ok r)
  then obtain len n where r: "ReadVarint data = Ok (len, n)" by (cases r) auto
  then have "n \<le> length data" by (rule varint.dec_bounds)
  with r show ?thesis by (auto simp: readString_def)
qed (auto simp: readString_def)

lemma readString_eq_Ok_iff:
  "readString data = Ok (s, k) \<longleftrightarrow>
   (\<exists>len n. ReadVarint data = Ok (len, n) \<and> k = n + unat len \<and> k \<le> length data \<and>
            s = string_of_bytes (take (unat len) (drop n data)))"
  by (auto simp: readString_eq outcome_simps not_less split: if_splits)

lemma readString_no_panic: "readString data \<noteq> Panic"
  using ReadVarint_no_panic [of data] by (auto simp: readString_eq outcome_simps)

lemma readString_prefix:
  assumes "readString data = Ok (s, k)"
  shows "readString (take k data @ rest) = Ok (s, k)"
proof -
  obtain len n where d: "ReadVarint data = Ok (len, n)" "k = n + unat len" "k \<le> length data"
      "s = string_of_bytes (take (unat len) (drop n data))"
    using assms unfolding readString_eq_Ok_iff by blast
  have "ReadVarint (take k data @ rest) = Ok (len, n)"
    using d by (intro varint.dec_agree [OF d(1)]) (simp add: min_def)
  moreover have "take (unat len) (drop n (take k data @ rest)) = take (unat len) (drop n data)"
    using d by (intro take_drop_take_append) auto
  ultimately show ?thesis using d by (auto simp: readString_eq_Ok_iff)
qed

lemma readString_truncated:
  assumes "readString data = Ok (s, k)" "j < k"
  shows "readString (take j data) = Err ErrShortBuffer"
proof -
  obtain len n where d: "ReadVarint data = Ok (len, n)" "k = n + unat len" "k \<le> length data"
    using assms unfolding readString_eq_Ok_iff by blast
  show ?thesis
  proof (cases "j < n")
    case True
    then show ?thesis by (simp add: readString_def ReadVarint_truncated [OF d(1)])
  next
    case False
    then have "ReadVarint (take j data) = Ok (len, n)"
      by (intro varint.dec_agree [OF d(1)]) (simp add: min_def)
    then show ?thesis using False assms(2) d by (simp add: readString_def)
  qed
qed

lemma readString_wire_string:
  "length s < 2 ^ 62 \<Longrightarrow> readString (wire_string s) = Ok (s, length (wire_string s))"
  by (simp add: readString_eq_Ok_iff wire_string_def wire_simps)

interpretation wstring: codec readString "appendString []" "\<lambda>s. length s < 2 ^ 62"
proof unfold_locales
  fix bs s n assume "readString bs = Ok (s, n)"
  then show "0 < n \<and> n \<le> length bs"
    by (auto simp: readString_eq_Ok_iff dest: varint.dec_bound)
qed (auto simp: readString_no_panic readString_prefix appendString_Ok readString_wire_string)

interpretation wstring_stream: incremental_decoder readString
  by unfold_locales (simp add: readString_truncated)

lemmas readString_append [wire_simps] = wstring.dec_append [OF readString_wire_string]

lemma readString_length: "readString data = Ok (s, k) \<Longrightarrow> length s < k"
  by (auto simp: readString_eq_Ok_iff dest: varint.dec_bound)

lemma readString_length_varint: "readString data = Ok (s, k) \<Longrightarrow> length s < 2 ^ 62"
  by (auto simp: readString_eq_Ok_iff le_MaxVarint_iff dest!: ReadVarint_le_MaxVarint)

lemma wire_string_shortest: "readString data = Ok (s, k) \<Longrightarrow> length (wire_string s) \<le> k"
  by (auto simp: readString_eq_Ok_iff wire_string_def dest: varint_shortest)

interpretation wstring_canonical: canonical_codec readString "appendString []" "\<lambda>s. length s < 2 ^ 62"
proof unfold_locales
  fix bs s n assume r: "readString bs = Ok (s, n)"
  then show "length s < 2 ^ 62" by (rule readString_length_varint)
  then show "length cs \<le> n" if "appendString [] s = Ok cs" for cs
    using wire_string_shortest [OF r] appendString_Ok [of s "[]"] that by simp
qed

lemma wire_string_nonempty [simp]: "wire_string s \<noteq> []"
  by (simp add: wire_string_def)

text \<open>
  String round trip.  A string shorter than \<open>2 ^ 62\<close> bytes is appended with its length
  and read back unchanged, and the reader stops exactly at its end; a cut-off string is
  reported as \<open>ErrShortBuffer\<close>.
\<close>

theorem string_roundtrip:
  assumes "length s < 2 ^ 62"
  shows "\<exists>bs. appendString dst s = Ok (dst @ bs) \<and> readString (bs @ rest) = Ok (s, length bs) \<and>
              (j < length bs \<longrightarrow> readString (take j bs) = Err ErrShortBuffer)"
  using assms readString_truncated [OF readString_wire_string [OF assms]]
  by (auto simp: appendString_Ok readString_append)

theorem string_roundtrip_witness:
  "length ''node1'' < 2 ^ 62 \<and>
   (\<exists>bs. appendString [1] ''node1'' = Ok ([1] @ bs) \<and> readString (bs @ [9]) = Ok (''node1'', length bs) \<and>
         (3 < length bs \<longrightarrow> readString (take 3 bs) = Err ErrShortBuffer))"
proof -
  have h: "length ''node1'' < 2 ^ 62" by simp
  show ?thesis using h string_roundtrip [OF h, of "[1]" "[9]" 3] by blast
qed

end
