(* ===== verification/Cancel.thy ===== *)
theory Cancel imports Wire begin

text \<open>
  \<^verbatim>\<open>cancel.go\<close>: the CANCEL payload (reason code and detail), its codec with the empty v0.1
  form, and the printable names of the reason codes.
\<close>

section \<open>Reason codes\<close>

abbreviation (input) ReasonUserCancelled :: u64 where "ReasonUserCancelled \<equiv> 0x00"
abbreviation (input) ReasonDeadlineExceeded :: u64 where "ReasonDeadlineExceeded \<equiv> 0x01"
abbreviation (input) ReasonBudgetExceeded :: u64 where "ReasonBudgetExceeded \<equiv> 0x02"
abbreviation (input) ReasonUpstreamCancelled :: u64 where "ReasonUpstreamCancelled \<equiv> 0x03"
abbreviation (input) ReasonResourceExhausted :: u64 where "ReasonResourceExhausted \<equiv> 0x04"
abbreviation (input) ReasonInternal :: u64 where "ReasonInternal \<equiv> 0x05"

text \<open>The verb \<^verbatim>\<open>%02x\<close> of \<^verbatim>\<open>fmt\<close>: lower-case hexadecimal, padded to two digits.\<close>

definition hex_digit :: "nat \<Rightarrow> char" where
  "hex_digit n = ''0123456789abcdef'' ! n"

fun hex_digits :: "nat \<Rightarrow> string" where
  "hex_digits n = (if n < 16 then [hex_digit n] else hex_digits (n div 16) @ [hex_digit (n mod 16)])"

declare hex_digits.simps [simp del]

definition fmt_02x :: "u64 \<Rightarrow> string" where
  "fmt_02x v = (let d = hex_digits (unat v) in if length d < 2 then ''0'' @ d else d)"

definition CancelReason_String :: "u64 \<Rightarrow> string" where
  "CancelReason_String r =
     (if r = ReasonUserCancelled then ''USER_CANCELLED''
      else if r = ReasonDeadlineExceeded then ''DEADLINE_EXCEEDED''
      else if r = ReasonBudgetExceeded then ''BUDGET_EXCEEDED''
      else if r = ReasonUpstreamCancelled then ''UPSTREAM_CANCELLED''
      else if r = ReasonResourceExhausted then ''RESOURCE_EXHAUSTED''
      else if r = ReasonInternal then ''INTERNAL''
      else if r \<ge> 0x40 then ''vendor(0x'' @ fmt_02x r @ '')''
      else ''reserved(0x'' @ fmt_02x r @ '')'')"

section \<open>The payload codec\<close>

record Cancel =
  c_Reason :: u64
  c_Detail :: string

definition Cancel_Encode :: "Cancel \<Rightarrow> bytes outcome" where
  "Cancel_Encode c =
     obind (AppendVarint [] (c_Reason c)) (\<lambda>out.
     appendString out (c_Detail c))"

definition DecodeCancel :: "bytes \<Rightarrow> Cancel outcome" where
  "DecodeCancel payload =
     (if length payload = 0 then Ok \<lparr>c_Reason = ReasonUserCancelled, c_Detail = ''''\<rparr>
      else
        obind (on_err (Wrap ''aire: CANCEL Reason'') (ReadVarint payload)) (\<lambda>(reason, n).
        obind (on_err (Wrap ''aire: CANCEL Detail'') (from_pos n payload readString)) (\<lambda>(detail, m).
        if n + m \<noteq> length payload then Err (Errorf ''aire: CANCEL: trailing bytes after Detail'')
        else Ok \<lparr>c_Reason = reason, c_Detail = detail\<rparr>)))"

section \<open>Operation error codes\<close>

abbreviation (input) ErrCodeCancelled :: u64 where "ErrCodeCancelled \<equiv> 0x0A"
abbreviation (input) ErrCodeBudgetExceeded :: u64 where "ErrCodeBudgetExceeded \<equiv> 0x0B"
abbreviation (input) ErrCodeDeadlineExceeded :: u64 where "ErrCodeDeadlineExceeded \<equiv> 0x0C"
abbreviation (input) ErrCodeDelegateFailed :: u64 where "ErrCodeDelegateFailed \<equiv> 0x0D"

section \<open>Names determine codes\<close>

fun hex_val :: "string \<Rightarrow> nat \<Rightarrow> nat" where
  "hex_val [] acc = acc"
| "hex_val (c # cs) acc =
     hex_val cs (16 * acc + (if of_char c < (58 :: nat) then of_char c - 48 else of_char c - 87))"

lemma hex_val_append: "hex_val (s @ t) acc = hex_val t (hex_val s acc)"
  by (induction s arbitrary: acc) auto

lemma hex_val_digit: "n < 16 \<Longrightarrow> hex_val [hex_digit n] acc = 16 * acc + n"
proof -
  have "list_all (\<lambda>n. hex_val [hex_digit n] 0 = n) [0..<16]" by code_simp
  then show "n < 16 \<Longrightarrow> ?thesis" by (simp add: list_all_iff)
qed

lemma hex_val_digits: "hex_val (hex_digits n) 0 = n"
proof (induction n rule: hex_digits.induct)
  case (1 n)
  show ?case
  proof (cases "n < 16")
    case True
    then show ?thesis using hex_val_digit [of n 0] by (simp add: hex_digits.simps [of n])
  next
    case False
    then show ?thesis
      using 1 hex_val_digit [of "n mod 16" "n div 16"]
      by (simp add: hex_digits.simps [of n] hex_val_append)
  qed
qed

lemma hex_val_fmt: "hex_val (fmt_02x v) 0 = unat v"
  by (simp add: fmt_02x_def Let_def hex_val_digits)

lemma fmt_02x_inject [simp]: "fmt_02x v = fmt_02x w \<longleftrightarrow> v = w"
  by (metis hex_val_fmt word_unat_eq_iff)

text \<open>
  Reason names.  Two reason codes with the same printable name are the same code: the
  six standard names, the vendor form and the reserved form never collide.
\<close>

theorem CancelReason_String_injective:
  "CancelReason_String r = CancelReason_String r' \<longleftrightarrow> r = r'"
  by (auto simp: CancelReason_String_def)

section \<open>The codec\<close>

definition Cancel_wf :: "Cancel \<Rightarrow> bool" where
  "Cancel_wf c \<longleftrightarrow> c_Reason c \<le> MaxVarint \<and> length (c_Detail c) < 2 ^ 62"

lemma DecodeCancel_eq_Ok_iff:
  "payload \<noteq> [] \<Longrightarrow>
   DecodeCancel payload = Ok c \<longleftrightarrow>
   (\<exists>n m. ReadVarint payload = Ok (c_Reason c, n) \<and> readString (drop n payload) = Ok (c_Detail c, m) \<and>
          n + m = length payload)"
  by (cases c) (auto simp: DecodeCancel_def outcome_simps dest: varint.dec_bounds split: if_splits)

lemma DecodeCancel_no_panic: "DecodeCancel payload \<noteq> Panic"
  using ReadVarint_no_panic [of payload] readString_no_panic
  by (auto simp: DecodeCancel_def outcome_simps from_pos_def slice_from_def dest: varint.dec_bounds split: if_splits)

lemma Cancel_Encode_Ok:
  "Cancel_wf c \<Longrightarrow> Cancel_Encode c = Ok (varint (c_Reason c) @ wire_string (c_Detail c))"
  by (simp add: Cancel_wf_def Cancel_Encode_def wire_simps)

lemma DecodeCancel_Encode:
  "Cancel_wf c \<Longrightarrow> DecodeCancel (varint (c_Reason c) @ wire_string (c_Detail c)) = Ok c"
  by (subst DecodeCancel_eq_Ok_iff)
     (auto simp: Cancel_wf_def ReadVarint_append readString_wire_string)

interpretation cancel: payload_codec DecodeCancel Cancel_Encode Cancel_wf
  by unfold_locales (auto simp: DecodeCancel_no_panic Cancel_Encode_Ok DecodeCancel_Encode)

lemma DecodeCancel_wf: "DecodeCancel payload = Ok c \<Longrightarrow> Cancel_wf c"
  by (auto simp: DecodeCancel_def obind_eq_Ok_iff Cancel_wf_def wstring.from_pos_Ok_iff split: if_splits
      dest: readString_length_varint ReadVarint_le_MaxVarint)

interpretation cancel_typed: typed_payload_codec DecodeCancel Cancel_Encode Cancel_wf
  by unfold_locales (rule DecodeCancel_wf)

text \<open>
  C31 (CANCEL round trip).  A reason that fits the wire and a detail encode to a payload
  that decodes to exactly that reason and detail, and no byte may follow it: the same
  payload with anything appended is refused.
\<close>

theorem cancel_roundtrip:
  assumes "c_Reason c \<le> MaxVarint" "length (c_Detail c) < 2 ^ 62"
  shows "\<exists>bs. Cancel_Encode c = Ok bs \<and> DecodeCancel bs = Ok c \<and>
              (extra \<noteq> [] \<longrightarrow>
               DecodeCancel (bs @ extra) = Err (Errorf ''aire: CANCEL: trailing bytes after Detail''))"
proof -
  have wf: "Cancel_wf c" using assms by (simp add: Cancel_wf_def)
  have "DecodeCancel ((varint (c_Reason c) @ wire_string (c_Detail c)) @ extra) =
      Err (Errorf ''aire: CANCEL: trailing bytes after Detail'')" if "extra \<noteq> []"
    using assms that by (simp add: DecodeCancel_def ReadVarint_append readString_append from_pos_Ok)
  then show ?thesis using Cancel_Encode_Ok [OF wf] DecodeCancel_Encode [OF wf] by blast
qed

theorem cancel_roundtrip_witness:
  "\<exists>bs. Cancel_Encode \<lparr>c_Reason = ReasonUpstreamCancelled, c_Detail = ''parent: ABORT''\<rparr> = Ok bs \<and>
        bs = [0x03, 0x0d, 0x70, 0x61, 0x72, 0x65, 0x6e, 0x74, 0x3a, 0x20, 0x41, 0x42, 0x4f, 0x52, 0x54] \<and>
        DecodeCancel bs = Ok \<lparr>c_Reason = ReasonUpstreamCancelled, c_Detail = ''parent: ABORT''\<rparr>"
proof -
  let ?c = "\<lparr>c_Reason = ReasonUpstreamCancelled, c_Detail = ''parent: ABORT''\<rparr>"
  have e: "Cancel_Encode ?c =
      Ok [0x03, 0x0d, 0x70, 0x61, 0x72, 0x65, 0x6e, 0x74, 0x3a, 0x20, 0x41, 0x42, 0x4f, 0x52, 0x54]"
    by (simp add: Cancel_Encode_def appendString_def AppendVarint_def MaxVarint_def
        bytes_of_string_def byte_of_char_def)
  have h: "c_Reason ?c \<le> MaxVarint" "length (c_Detail ?c) < 2 ^ 62"
    by (simp_all add: MaxVarint_def)
  show ?thesis using cancel_roundtrip [OF h] e by auto
qed

text \<open>
  CANCEL decoding.  The decoder never panics; it accepts exactly the empty payload,
  which it reads as a user cancellation without detail, and the payloads made of one
  integer and one string with nothing after them.
\<close>

theorem cancel_decode_complete:
  "DecodeCancel payload \<noteq> Panic \<and>
   (DecodeCancel payload = Ok c \<longleftrightarrow>
      (if payload = [] then c = \<lparr>c_Reason = ReasonUserCancelled, c_Detail = ''''\<rparr>
       else \<exists>n m. ReadVarint payload = Ok (c_Reason c, n) \<and>
                  readString (drop n payload) = Ok (c_Detail c, m) \<and> n + m = length payload))"
  using DecodeCancel_no_panic [of payload] DecodeCancel_eq_Ok_iff [of payload c]
  by (auto simp: DecodeCancel_def)

end
