(* ===== verification/Budget.thy ===== *)
theory Budget imports Wire begin

text \<open>
  \<^verbatim>\<open>budget.go\<close>: the BUDGET payload, a counted list of (field, length, value) entries.  The
  decoder is related to an abstract reading of the entry list as a finite map from field
  numbers to values, which gives the round trip, the independence of the entry order and
  the refusal of duplicates.
\<close>

section \<open>Model\<close>

abbreviation (input) BudgetFieldTokensRemaining :: byte where "BudgetFieldTokensRemaining \<equiv> 0x01"
abbreviation (input) BudgetFieldCostMicrounitsRemaining :: byte where "BudgetFieldCostMicrounitsRemaining \<equiv> 0x02"
abbreviation (input) BudgetFieldCurrency :: byte where "BudgetFieldCurrency \<equiv> 0x03"
abbreviation (input) BudgetFieldDeadlineMS :: byte where "BudgetFieldDeadlineMS \<equiv> 0x04"

record Budget =
  b_Tokens :: "u64 option"
  b_CostMicrounits :: "u64 option"
  b_Currency :: string
  b_DeadlineMS :: "u64 option"

type_synonym entry = "byte \<times> bytes"

text \<open>The \<^verbatim>\<open>entries\<close> slice that \<^verbatim>\<open>Budget.Encode\<close> collects, and the loop that writes it.\<close>

definition budget_entries :: "Budget \<Rightarrow> entry list outcome" where
  "budget_entries b =
     obind (case b_Tokens b of None \<Rightarrow> Ok []
            | Some t \<Rightarrow> obind (AppendVarint [] t) (\<lambda>v. Ok [(BudgetFieldTokensRemaining, v)])) (\<lambda>tokens.
     obind (case b_CostMicrounits b of None \<Rightarrow> Ok []
            | Some t \<Rightarrow> obind (AppendVarint [] t) (\<lambda>v. Ok [(BudgetFieldCostMicrounitsRemaining, v)])) (\<lambda>cost.
     Ok (tokens @ cost @
         (if b_Currency b \<noteq> '''' then [(BudgetFieldCurrency, bytes_of_string (b_Currency b))] else []) @
         (case b_DeadlineMS b of None \<Rightarrow> [] | Some d \<Rightarrow> [(BudgetFieldDeadlineMS, PutUint64 d)]))))"

fun emit_entries :: "entry list \<Rightarrow> bytes \<Rightarrow> bytes outcome" where
  "emit_entries [] out = Ok out"
| "emit_entries ((fid, value) # es) out =
     obind (AppendVarint (out @ [fid]) (word_of_nat (length value))) (\<lambda>out.
     emit_entries es (out @ value))"

definition encode_entries :: "entry list \<Rightarrow> bytes outcome" where
  "encode_entries es = obind (AppendVarint [] (word_of_nat (length es))) (emit_entries es)"

definition Budget_Encode :: "Budget \<Rightarrow> bytes outcome" where
  "Budget_Encode b = obind (budget_entries b) encode_entries"

definition empty_Budget :: Budget where
  "empty_Budget = \<lparr>b_Tokens = None, b_CostMicrounits = None, b_Currency = '''', b_DeadlineMS = None\<rparr>"

text \<open>The \<^verbatim>\<open>switch fid\<close> of \<^verbatim>\<open>DecodeBudget\<close>.\<close>

definition budget_field :: "Budget \<Rightarrow> byte \<Rightarrow> bytes \<Rightarrow> Budget outcome" where
  "budget_field b fid value =
     (if fid = BudgetFieldTokensRemaining then
        obind (on_err (Wrap ''aire: BUDGET TOKENS_REMAINING value'') (ReadVarint value)) (\<lambda>(v, n).
        Ok (b\<lparr>b_Tokens := Some v\<rparr>))
      else if fid = BudgetFieldCostMicrounitsRemaining then
        obind (on_err (Wrap ''aire: BUDGET COST_MICROUNITS value'') (ReadVarint value)) (\<lambda>(v, n).
        Ok (b\<lparr>b_CostMicrounits := Some v\<rparr>))
      else if fid = BudgetFieldCurrency then
        (if length value \<noteq> 3 then Err (Errorf ''aire: BUDGET CURRENCY value length'')
         else Ok (b\<lparr>b_Currency := string_of_bytes value\<rparr>))
      else if fid = BudgetFieldDeadlineMS then
        (if length value \<noteq> 8 then Err (Errorf ''aire: BUDGET DEADLINE_MS value length'')
         else obind (BE_Uint64 value) (\<lambda>d. Ok (b\<lparr>b_DeadlineMS := Some d\<rparr>)))
      else Ok b)"

text \<open>The loop over the entries, counting down the iterations left.\<close>

fun budget_loop :: "nat \<Rightarrow> bytes \<Rightarrow> nat \<Rightarrow> Budget \<Rightarrow> byte set \<Rightarrow> (Budget \<times> nat) outcome" where
  "budget_loop 0 payload pos b seen = Ok (b, pos)"
| "budget_loop (Suc k) payload pos b seen =
     (if pos \<ge> length payload then Err (Errorf ''aire: BUDGET entry: missing FieldID'')
      else
        obind (index pos payload) (\<lambda>fid.
        let pos = pos + 1 in
        obind (on_err (Wrap ''aire: BUDGET entry Length'') (from_pos pos payload ReadVarint)) (\<lambda>(len, m).
        let pos = pos + m in
        if length payload - pos < unat len then Err (Errorf ''aire: BUDGET entry Value: short'')
        else
          obind (subslice pos (pos + unat len) payload) (\<lambda>value.
          let pos = pos + unat len in
          if fid \<in> seen then Err (Errorf ''aire: BUDGET entry: duplicate FieldID'')
          else obind (budget_field b fid value) (\<lambda>b. budget_loop k payload pos b (insert fid seen))))))"

definition DecodeBudget :: "bytes \<Rightarrow> Budget outcome" where
  "DecodeBudget payload =
     obind (on_err (Wrap ''aire: BUDGET NumEntry'') (ReadVarint payload)) (\<lambda>(num, n).
     if num = 0 then Err (Errorf ''aire: BUDGET payload has zero entries'')
     else
       obind (budget_loop (unat num) payload n empty_Budget {}) (\<lambda>(b, pos).
       if pos \<noteq> length payload then Err (Errorf ''aire: BUDGET: trailing bytes after entries'')
       else Ok b))"

section \<open>No panic\<close>

lemma budget_field_no_panic: "budget_field b fid val \<noteq> Panic"
  using ReadVarint_no_panic [of val]
  by (simp add: budget_field_def obind_eq_Panic_iff BE_Uint64_def split: prod.splits)

lemma budget_loop_no_panic: "pos \<le> length payload \<Longrightarrow> budget_loop k payload pos b seen \<noteq> Panic"
proof (induction k arbitrary: pos b seen)
  case (Suc k)
  show ?case
  proof (cases "pos < length payload")
    case True
    then show ?thesis
      by (simp add: Let_def)
         (intro varint.on_err_bind_no_panic varint.bind_no_panic;
          simp add: not_less Suc.IH budget_field_no_panic obind_eq_Panic_iff)
  qed simp
qed simp

lemma DecodeBudget_no_panic: "DecodeBudget payload \<noteq> Panic"
  using ReadVarint_no_panic [of payload] budget_loop_no_panic [of _ payload] varint.dec_bounds [of payload]
  by (auto simp: DecodeBudget_def obind_eq_Panic_iff split: if_splits prod.splits)

section \<open>The decoder reads a finite map\<close>

declare budget_loop.simps(2) [simp del]

text \<open>Abstract reading of an entry list: which entries are valid, and what a valid one means.\<close>

definition valid_field :: "entry \<Rightarrow> bool" where
  "valid_field e = (case e of (fid, v) \<Rightarrow>
     (fid = 1 \<or> fid = 2 \<longrightarrow> (case ReadVarint v of Ok _ \<Rightarrow> True | _ \<Rightarrow> False)) \<and>
     (fid = 3 \<longrightarrow> length v = 3) \<and> (fid = 4 \<longrightarrow> length v = 8))"

definition varint_value :: "bytes \<Rightarrow> u64 option" where
  "varint_value v = (case ReadVarint v of Ok (x, n) \<Rightarrow> Some x | _ \<Rightarrow> None)"

definition deadline_value :: "bytes \<Rightarrow> u64 option" where
  "deadline_value v = (case BE_Uint64 v of Ok d \<Rightarrow> Some d | _ \<Rightarrow> None)"

definition update_budget :: "Budget \<Rightarrow> (byte \<rightharpoonup> bytes) \<Rightarrow> Budget" where
  "update_budget b m =
     \<lparr>b_Tokens = (case m 1 of None \<Rightarrow> b_Tokens b | Some v \<Rightarrow> varint_value v),
      b_CostMicrounits = (case m 2 of None \<Rightarrow> b_CostMicrounits b | Some v \<Rightarrow> varint_value v),
      b_Currency = (case m 3 of None \<Rightarrow> b_Currency b | Some v \<Rightarrow> string_of_bytes v),
      b_DeadlineMS = (case m 4 of None \<Rightarrow> b_DeadlineMS b | Some v \<Rightarrow> deadline_value v)\<rparr>"

lemma budget_field_eq_Ok_iff:
  "budget_field b fid v = Ok b' \<longleftrightarrow> valid_field (fid, v) \<and> b' = update_budget b [fid \<mapsto> v]"
  by (cases b)
     (auto simp: budget_field_def valid_field_def update_budget_def varint_value_def deadline_value_def
       outcome_simps BE_Uint64_def split: outcome.splits prod.splits)

lemma update_budget_update:
  "fid \<notin> dom m \<Longrightarrow> update_budget (update_budget b [fid \<mapsto> v]) m = update_budget b (m(fid \<mapsto> v))"
  by (auto simp: update_budget_def domIff split: option.splits)

lemma update_budget_empty [simp]: "update_budget b Map.empty = b"
  by (simp add: update_budget_def)

text \<open>The bytes of one entry, and the loop over a payload that holds a list of them.\<close>

definition entry_bytes :: "entry \<Rightarrow> bytes" where
  "entry_bytes e = fst e # varint (word_of_nat (length (snd e))) @ snd e"

lemma budget_loop_entries:
  assumes "list_all (\<lambda>e. length (snd e) < 2 ^ 62) es"
  shows "budget_loop (length es) (pre @ concat (map entry_bytes es) @ rest) (length pre) b seen = Ok (b', k) \<longleftrightarrow>
     distinct (map fst es) \<and> seen \<inter> fst ` set es = {} \<and> list_all valid_field es \<and>
     b' = update_budget b (map_of es) \<and> k = length pre + length (concat (map entry_bytes es))"
  using assms
proof (induction es arbitrary: pre b seen)
  case (Cons e es)
  obtain fid v where e: "e = (fid, v)" by fastforce
  let ?len = "word_of_nat (length v) :: u64"
  let ?rest = "concat (map entry_bytes es) @ rest"
  have v: "unat ?len = length v" "?len \<le> MaxVarint"
    using Cons.prems e by (auto simp: wire_simps)
  have IH: "budget_loop (length es) ((pre @ entry_bytes e) @ ?rest) (length (pre @ entry_bytes e)) b'' (insert fid seen) = Ok (b', k)
     \<longleftrightarrow> distinct (map fst es) \<and> insert fid seen \<inter> fst ` set es = {} \<and> list_all valid_field es \<and>
       b' = update_budget b'' (map_of es) \<and>
       k = length (pre @ entry_bytes e) + length (concat (map entry_bytes es))" for b''
    using Cons.prems by (intro Cons.IH) simp
  have step: "budget_loop (length (e # es)) (pre @ entry_bytes e @ ?rest) (length pre) b seen =
      (if fid \<in> seen then Err (Errorf ''aire: BUDGET entry: duplicate FieldID'')
       else obind (budget_field b fid v) (\<lambda>b.
         budget_loop (length es) ((pre @ entry_bytes e) @ ?rest) (length (pre @ entry_bytes e)) b (insert fid seen)))"
    using v by (simp add: budget_loop.simps e entry_bytes_def Let_def from_pos_Ok ReadVarint_append nth_append add.assoc)
  have "budget_loop (length (e # es)) (pre @ entry_bytes e @ ?rest) (length pre) b seen = Ok (b', k) \<longleftrightarrow>
      fid \<notin> seen \<and> valid_field (fid, v) \<and>
      budget_loop (length es) ((pre @ entry_bytes e) @ ?rest) (length (pre @ entry_bytes e))
        (update_budget b [fid \<mapsto> v]) (insert fid seen) = Ok (b', k)"
    unfolding step
    by (auto simp: outcome_simps budget_field_eq_Ok_iff simp del: append_assoc length_append)
  also have "... \<longleftrightarrow> fid \<notin> seen \<and> valid_field (fid, v) \<and> distinct (map fst es) \<and>
      insert fid seen \<inter> fst ` set es = {} \<and> list_all valid_field es \<and>
      b' = update_budget (update_budget b [fid \<mapsto> v]) (map_of es) \<and>
      k = length (pre @ entry_bytes e) + length (concat (map entry_bytes es))"
    unfolding IH ..
  finally show ?case
    using update_budget_update [of fid "map_of es" b v] by (auto simp: e map_of_eq_None_iff domIff fun_upd_def add.assoc)
qed auto

lemma emit_entries_Ok:
  "list_all (\<lambda>e. length (snd e) < 2 ^ 62) es \<Longrightarrow>
   emit_entries es out = Ok (out @ concat (map entry_bytes es))"
  by (induction es out rule: emit_entries.induct) (auto simp: wire_simps entry_bytes_def)

text \<open>Entry lists that fit the wire: fewer than \<open>2 ^ 62\<close> entries, each value that short too.\<close>

definition entries_fit :: "entry list \<Rightarrow> bool" where
  "entries_fit es \<longleftrightarrow> length es < 2 ^ 62 \<and> list_all (\<lambda>e. length (snd e) < 2 ^ 62) es"

lemma encode_entries_Ok:
  "entries_fit es \<Longrightarrow>
   encode_entries es = Ok (varint (word_of_nat (length es)) @ concat (map entry_bytes es))"
  by (simp add: entries_fit_def encode_entries_def wire_simps emit_entries_Ok)

lemma DecodeBudget_entries:
  assumes "entries_fit es" "encode_entries es = Ok payload"
  shows "DecodeBudget payload = Ok b \<longleftrightarrow>
    es \<noteq> [] \<and> distinct (map fst es) \<and> list_all valid_field es \<and> b = update_budget empty_Budget (map_of es)"
proof -
  let ?num = "word_of_nat (length es) :: u64"
  have num: "unat ?num = length es" "?num \<le> MaxVarint" "list_all (\<lambda>e. length (snd e) < 2 ^ 62) es"
    using assms(1) by (auto simp: entries_fit_def wire_simps)
  have num0: "?num = 0 \<longleftrightarrow> es = []"
    using num(1) by (metis length_0_conv unsigned_0 unat_eq_zero)
  have payload: "payload = varint ?num @ concat (map entry_bytes es)"
    using assms encode_entries_Ok by simp
  have "budget_loop (length es) payload (length (varint ?num)) empty_Budget {} = Ok (b', k) \<longleftrightarrow>
      distinct (map fst es) \<and> list_all valid_field es \<and> b' = update_budget empty_Budget (map_of es) \<and>
      k = length payload" for b' k
    using budget_loop_entries [OF num(3), of "varint ?num" "[]" empty_Budget "{}" b' k] by (simp add: payload)
  then show ?thesis
    using num num0 by (auto simp: DecodeBudget_def payload ReadVarint_append outcome_simps split: if_splits)
qed

text \<open>
  C30 (BUDGET decoding refines a finite map).  On the encoding of an entry list the decoder
  succeeds exactly when there is an entry, no field number occurs twice and every known
  field has a value of its form; the budget it returns is what the list says as a map from
  field numbers to values, unknown fields being skipped.
\<close>

theorem budget_decode_refines_map:
  assumes "entries_fit es" "encode_entries es = Ok payload"
  shows "DecodeBudget payload = Ok b \<longleftrightarrow>
    es \<noteq> [] \<and> distinct (map fst es) \<and> list_all valid_field es \<and> b = update_budget empty_Budget (map_of es)"
  using assms by (rule DecodeBudget_entries)

theorem budget_decode_refines_map_witness:
  "entries_fit [(0x09, [1, 2]), (0x03, [85, 83, 68])] \<and>
   encode_entries [(0x09, [1, 2]), (0x03, [85, 83, 68])] = Ok [2, 9, 2, 1, 2, 3, 3, 85, 83, 68] \<and>
   DecodeBudget [2, 9, 2, 1, 2, 3, 3, 85, 83, 68] =
     Ok \<lparr>b_Tokens = None, b_CostMicrounits = None, b_Currency = ''USD'', b_DeadlineMS = None\<rparr>"
proof -
  let ?es = "[(0x09, [1, 2]), (0x03, [85, 83, 68])] :: entry list"
  have h: "entries_fit ?es" by (simp add: entries_fit_def)
  have e: "encode_entries ?es = Ok [2, 9, 2, 1, 2, 3, 3, 85, 83, 68]"
    by (simp add: encode_entries_def AppendVarint_def MaxVarint_def)
  have "update_budget empty_Budget (map_of ?es) =
      \<lparr>b_Tokens = None, b_CostMicrounits = None, b_Currency = ''USD'', b_DeadlineMS = None\<rparr>"
    by (simp add: update_budget_def empty_Budget_def string_of_bytes_eq_iff
        bytes_of_string_def byte_of_char_def)
  then show ?thesis
    using h e budget_decode_refines_map [OF h e] by (simp add: valid_field_def)
qed

text \<open>
  BUDGET entry order.  The order of the entries does not matter: a payload whose
  entries are a rearrangement of those of an accepted payload is accepted with the same
  budget.
\<close>

theorem budget_decode_order_irrelevant:
  assumes "entries_fit es" "encode_entries es = Ok p" "DecodeBudget p = Ok b"
    and "distinct (map fst es')" "set es' = set es" "length es' = length es"
  shows "\<exists>p'. encode_entries es' = Ok p' \<and> DecodeBudget p' = Ok b"
proof -
  have fit: "entries_fit es'"
    using assms(1,5,6) by (simp add: entries_fit_def list_all_iff)
  have es: "es \<noteq> []" "distinct (map fst es)" "list_all valid_field es"
      "b = update_budget empty_Budget (map_of es)"
    using DecodeBudget_entries [OF assms(1,2)] assms(3) by auto
  moreover have "map_of es' = map_of es"
    using es(2) assms(4,5) by (metis map_of_inject_set)
  ultimately show ?thesis
    using encode_entries_Ok [OF fit] DecodeBudget_entries [OF fit] assms(4-6)
    by (auto simp: list_all_iff)
qed

theorem budget_decode_order_irrelevant_witness:
  "\<exists>p'. encode_entries [(0x03, [85, 83, 68]), (0x09, [1, 2])] = Ok p' \<and>
        DecodeBudget p' = Ok \<lparr>b_Tokens = None, b_CostMicrounits = None, b_Currency = ''USD'', b_DeadlineMS = None\<rparr>"
proof -
  let ?es = "[(0x09, [1, 2]), (0x03, [85, 83, 68])] :: entry list"
  have h: "entries_fit ?es" by (simp add: entries_fit_def)
  have e: "encode_entries ?es = Ok [2, 9, 2, 1, 2, 3, 3, 85, 83, 68]"
    by (simp add: encode_entries_def AppendVarint_def MaxVarint_def)
  have u: "string_of_bytes [85, 83, 68] = ''USD''"
    by (simp add: string_of_bytes_eq_iff bytes_of_string_def byte_of_char_def)
  have d: "DecodeBudget [2, 9, 2, 1, 2, 3, 3, 85, 83, 68] =
      Ok \<lparr>b_Tokens = None, b_CostMicrounits = None, b_Currency = ''USD'', b_DeadlineMS = None\<rparr>"
    using DecodeBudget_entries [OF h e] u
    by (simp add: valid_field_def update_budget_def empty_Budget_def)
  show ?thesis
    by (rule budget_decode_order_irrelevant [OF h e d]) auto
qed

section \<open>Round trip\<close>

definition Budget_wf :: "Budget \<Rightarrow> bool" where
  "Budget_wf b \<longleftrightarrow>
     (case b_Tokens b of None \<Rightarrow> True | Some v \<Rightarrow> v \<le> MaxVarint) \<and>
     (case b_CostMicrounits b of None \<Rightarrow> True | Some v \<Rightarrow> v \<le> MaxVarint) \<and>
     (b_Currency b = '''' \<or> length (b_Currency b) = 3) \<and> b \<noteq> empty_Budget"

text \<open>The entries of a well-formed budget, without the panic of the integer encoder.\<close>

definition entries_of :: "Budget \<Rightarrow> entry list" where
  "entries_of b =
     (case b_Tokens b of None \<Rightarrow> [] | Some t \<Rightarrow> [(1, varint t)]) @
     (case b_CostMicrounits b of None \<Rightarrow> [] | Some t \<Rightarrow> [(2, varint t)]) @
     (if b_Currency b = [] then [] else [(3, bytes_of_string (b_Currency b))]) @
     (case b_DeadlineMS b of None \<Rightarrow> [] | Some d \<Rightarrow> [(4, PutUint64 d)])"

lemma budget_entries_Ok: "Budget_wf b \<Longrightarrow> budget_entries b = Ok (entries_of b)"
  by (simp add: budget_entries_def Budget_wf_def entries_of_def wire_simps split: option.splits)

lemma entries_of_fit: "Budget_wf b \<Longrightarrow> entries_fit (entries_of b)"
  by (auto simp: entries_fit_def entries_of_def Budget_wf_def length_varint split: option.split)

lemma entries_of_distinct: "distinct (map fst (entries_of b))"
  by (simp add: entries_of_def split: option.split)

lemma entries_of_valid: "Budget_wf b \<Longrightarrow> list_all valid_field (entries_of b)"
  by (auto simp: entries_of_def Budget_wf_def valid_field_def ReadVarint_varint split: option.splits)

lemma entries_of_nonempty: "Budget_wf b \<Longrightarrow> entries_of b \<noteq> []"
  by (cases b) (auto simp: entries_of_def Budget_wf_def empty_Budget_def split: option.splits)

lemma update_entries_of: "Budget_wf b \<Longrightarrow> update_budget empty_Budget (map_of (entries_of b)) = b"
  by (cases b)
     (simp add: entries_of_def update_budget_def empty_Budget_def Budget_wf_def varint_value_def
       deadline_value_def ReadVarint_varint split: option.splits)

interpretation budget: payload_codec DecodeBudget Budget_Encode Budget_wf
proof
  fix b assume wf: "Budget_wf b"
  have enc: "Budget_Encode b = encode_entries (entries_of b)"
    using wf by (simp add: Budget_Encode_def budget_entries_Ok)
  show "\<exists>bs. Budget_Encode b = Ok bs"
    using wf by (simp add: enc encode_entries_Ok entries_of_fit)
  show "DecodeBudget bs = Ok b" if "Budget_Encode b = Ok bs" for bs
    using that wf DecodeBudget_entries [OF entries_of_fit [OF wf], of bs b]
    by (simp add: enc entries_of_nonempty entries_of_distinct entries_of_valid update_entries_of)
qed (rule DecodeBudget_no_panic)

text \<open>
  What the decoder returns: values of the wire's integers and a currency of three bytes or
  none.  A payload of unknown fields only gives the empty budget, the one value that has no
  encoding of its own.
\<close>

definition budget_typed :: "Budget \<Rightarrow> bool" where
  "budget_typed b \<longleftrightarrow> b = empty_Budget \<or> Budget_wf b"

lemma budget_typed_iff:
  "budget_typed b \<longleftrightarrow>
     (case b_Tokens b of None \<Rightarrow> True | Some v \<Rightarrow> v \<le> MaxVarint) \<and>
     (case b_CostMicrounits b of None \<Rightarrow> True | Some v \<Rightarrow> v \<le> MaxVarint) \<and>
     (b_Currency b = '''' \<or> length (b_Currency b) = 3)"
  by (auto simp: budget_typed_def Budget_wf_def empty_Budget_def)

lemma budget_field_typed: "budget_field b fid v = Ok b' \<Longrightarrow> budget_typed b \<Longrightarrow> budget_typed b'"
  by (auto simp: budget_field_def budget_typed_iff obind_eq_Ok_iff split: if_splits dest: ReadVarint_le_MaxVarint)

lemma budget_loop_typed: "budget_loop k payload pos b seen = Ok (b', pos') \<Longrightarrow> budget_typed b \<Longrightarrow> budget_typed b'"
proof (induction k arbitrary: pos b seen)
  case (Suc k)
  then show ?case by (auto simp: budget_loop.simps obind_eq_Ok_iff Let_def split: if_splits dest: budget_field_typed)
qed simp

lemma DecodeBudget_typed: "DecodeBudget payload = Ok b \<Longrightarrow> budget_typed b"
  by (auto simp: DecodeBudget_def obind_eq_Ok_iff budget_typed_def [of empty_Budget] split: if_splits dest!: budget_loop_typed)

lemma empty_budget_encode: "Budget_Encode empty_Budget = Ok [0]"
  by (simp add: Budget_Encode_def budget_entries_def empty_Budget_def encode_entries_def AppendVarint_def MaxVarint_def)

lemma zero_entries_refused: "DecodeBudget [0] \<noteq> Ok b"
  by (simp add: DecodeBudget_def ReadVarint_def index_def)

lemma DecodeBudget_unknown: "DecodeBudget [1, 9, 0] = Ok empty_Budget"
proof -
  have fit: "entries_fit [(9, [])]" by (simp add: entries_fit_def)
  have "encode_entries [(9, [])] = Ok [1, 9, 0]" by (simp add: encode_entries_def AppendVarint_def MaxVarint_def)
  from DecodeBudget_entries [OF fit this] show ?thesis by (simp add: valid_field_def update_budget_def empty_Budget_def)
qed

lemma budget_reencode:
  assumes "DecodeBudget payload = Ok b"
  shows "\<exists>bs. Budget_Encode b = Ok bs \<and> (DecodeBudget bs = Ok b \<longleftrightarrow> b \<noteq> empty_Budget)"
proof (cases "b = empty_Budget")
  case True
  then show ?thesis using empty_budget_encode zero_entries_refused by simp
next
  case False
  then show ?thesis using DecodeBudget_typed [OF assms] budget.payload_roundtrip [of b] by (auto simp: budget_typed_def)
qed

text \<open>
  BUDGET round trip.  A budget with at least one dimension, integers that fit the
  wire and a three-letter or absent currency encodes without a panic and decodes to itself.
\<close>

theorem budget_roundtrip:
  assumes "Budget_wf b"
  shows "\<exists>bs. Budget_Encode b = Ok bs \<and> DecodeBudget bs = Ok b"
  using assms by (rule budget.payload_roundtrip)

theorem budget_roundtrip_witness:
  "Budget_Encode \<lparr>b_Tokens = Some 1000, b_CostMicrounits = Some 5000, b_Currency = ''USD'', b_DeadlineMS = None\<rparr> =
     Ok [0x03, 0x01, 0x02, 0x43, 0xe8, 0x02, 0x02, 0x53, 0x88, 0x03, 0x03, 0x55, 0x53, 0x44] \<and>
   DecodeBudget [0x03, 0x01, 0x02, 0x43, 0xe8, 0x02, 0x02, 0x53, 0x88, 0x03, 0x03, 0x55, 0x53, 0x44] =
     Ok \<lparr>b_Tokens = Some 1000, b_CostMicrounits = Some 5000, b_Currency = ''USD'', b_DeadlineMS = None\<rparr>"
proof -
  let ?b = "\<lparr>b_Tokens = Some 1000, b_CostMicrounits = Some 5000, b_Currency = ''USD'', b_DeadlineMS = None\<rparr>"
  have h: "Budget_wf ?b" by (simp add: Budget_wf_def MaxVarint_def empty_Budget_def)
  have e: "Budget_Encode ?b =
      Ok [0x03, 0x01, 0x02, 0x43, 0xe8, 0x02, 0x02, 0x53, 0x88, 0x03, 0x03, 0x55, 0x53, 0x44]"
    by (simp add: Budget_Encode_def budget_entries_def encode_entries_def AppendVarint_def MaxVarint_def
        bytes_of_string_def byte_of_char_def)
  show ?thesis using e budget_roundtrip [OF h] by auto
qed

text \<open>
  BUDGET decoding of untrusted bytes.  The decoder returns on every payload: whatever
  entry count and lengths it declares, no slice goes out of range and nothing panics.
\<close>

theorem budget_decode_no_panic: "DecodeBudget payload \<noteq> Panic"
  by (rule DecodeBudget_no_panic)

end
