(* ===== verification/Capability.thy ===== *)
theory Capability imports Go_Strings "HOL-Library.Char_ord" begin

text \<open>
  \<^verbatim>\<open>capability.go\<close>: the grammar of capability names, the reserved namespace, and the
  negotiation of the active set.  The name checker is shown equivalent to a grammar, the
  negotiation to a set-theoretic specification that both sides of a connection agree on.
\<close>

section \<open>Capability names\<close>

definition CapDIDMethodWeb :: string where "CapDIDMethodWeb = ''aire.did-method.web/1''"

definition CapDIDMethodKey :: string where "CapDIDMethodKey = ''aire.did-method.key/1''"

definition MaxCapabilityNameBytes :: nat where
  "MaxCapabilityNameBytes = 255"

definition isAlpha :: "char \<Rightarrow> bool" where
  "isAlpha b \<longleftrightarrow> (b \<ge> CHR ''a'' \<and> b \<le> CHR ''z'') \<or> (b \<ge> CHR ''A'' \<and> b \<le> CHR ''Z'')"

definition isDigit :: "char \<Rightarrow> bool" where
  "isDigit b \<longleftrightarrow> b \<ge> CHR ''0'' \<and> b \<le> CHR ''9''"

text \<open>A returned \<^verbatim>\<open>error\<close> alone is an \<open>error option\<close>, \<open>None\<close> for \<^verbatim>\<open>nil\<close>.\<close>

fun check_label_bytes :: "string \<Rightarrow> error option" where
  "check_label_bytes [] = None"
| "check_label_bytes (b # bs) =
     (if \<not> isAlpha b \<and> \<not> isDigit b \<and> b \<noteq> CHR ''-'' then Some (Errorf ''namespace label has invalid byte'')
      else check_label_bytes bs)"

fun check_labels :: "string list \<Rightarrow> error option" where
  "check_labels [] = None"
| "check_labels (label # labels) =
     (if label = '''' then Some (Errorf ''namespace has empty label'')
      else if \<not> isAlpha (label ! 0) then Some (Errorf ''namespace label must begin with ALPHA'')
      else (case check_label_bytes (drop 1 label) of Some e \<Rightarrow> Some e | None \<Rightarrow> check_labels labels))"

definition validateNamespace :: "string \<Rightarrow> error option" where
  "validateNamespace ns =
     (if ns = '''' then Some (Errorf ''empty namespace'') else check_labels (Split ns CHR ''.''))"

fun check_digits :: "string \<Rightarrow> error option" where
  "check_digits [] = None"
| "check_digits (b # bs) =
     (if \<not> isDigit b then Some (Errorf ''major has non-digit byte'') else check_digits bs)"

definition validateMajor :: "string \<Rightarrow> error option" where
  "validateMajor s =
     (if s = '''' then Some (Errorf ''empty major'')
      else if length s > 1 \<and> s ! 0 = CHR ''0'' then Some (Errorf ''major has leading zero'')
      else check_digits s)"

definition ValidateCapabilityName :: "string \<Rightarrow> error option" where
  "ValidateCapabilityName name =
     (if name = '''' then Some (Errorf ''aire: capability name is empty'')
      else if length name > MaxCapabilityNameBytes then Some (Errorf ''aire: capability name exceeds bytes'')
      else case IndexByte name CHR ''/'' of
        None \<Rightarrow> Some (Errorf ''aire: capability name missing major suffix'')
      | Some i \<Rightarrow>
          (let namespace = take i name; major = drop (i + 1) name in
           if namespace = '''' then Some (Errorf ''aire: capability name has empty namespace'')
           else if major = '''' then Some (Errorf ''aire: capability name has empty major'')
           else if IndexByte major CHR ''/'' \<noteq> None then
             Some (Errorf ''aire: capability name contains multiple separators'')
           else case validateNamespace namespace of
             Some e \<Rightarrow> Some (Wrap ''aire: capability name'' e)
           | None \<Rightarrow>
               (case validateMajor major of
                  Some e \<Rightarrow> Some (Wrap ''aire: capability name'' e)
                | None \<Rightarrow> None)))"

definition IsReservedNamespace :: "string \<Rightarrow> bool" where
  "IsReservedNamespace name =
     (let ns = (case IndexByte name CHR ''/'' of Some i \<Rightarrow> take i name | None \<Rightarrow> name);
          first = (case IndexByte ns CHR ''.'' of Some i \<Rightarrow> take i ns | None \<Rightarrow> ns)
      in first = ''aire'')"

section \<open>Negotiation\<close>

record Capability =
  cap_Name :: string
  cap_Version :: u64
  cap_Required :: bool

fun index_loop :: "Capability list \<Rightarrow> string \<Rightarrow> (string \<rightharpoonup> Capability) \<Rightarrow> (string \<rightharpoonup> Capability) outcome" where
  "index_loop [] side idx = Ok idx"
| "index_loop (c # cs) side idx =
     (if idx (cap_Name c) \<noteq> None then Err (Wrap (side @ '' side has duplicate capability name'') ErrMalformedHello)
      else index_loop cs side (idx(cap_Name c \<mapsto> c)))"

definition indexCapabilities :: "Capability list \<Rightarrow> string \<Rightarrow> (string \<rightharpoonup> Capability) outcome" where
  "indexCapabilities caps side = index_loop caps side Map.empty"

fun active_loop :: "Capability list \<Rightarrow> (string \<rightharpoonup> Capability) \<Rightarrow> Capability list" where
  "active_loop [] peerByName = []"
| "active_loop (lc # lcs) peerByName =
     (case peerByName (cap_Name lc) of
        None \<Rightarrow> active_loop lcs peerByName
      | Some pc \<Rightarrow>
          (let minor = (if cap_Version pc < cap_Version lc then cap_Version pc else cap_Version lc) in
           \<lparr>cap_Name = cap_Name lc, cap_Version = minor, cap_Required = False\<rparr> # active_loop lcs peerByName))"

fun required_loop :: "Capability list \<Rightarrow> (string \<rightharpoonup> Capability) \<Rightarrow> string \<Rightarrow> error option" where
  "required_loop [] other msg = None"
| "required_loop (c # cs) other msg =
     (if \<not> cap_Required c then required_loop cs other msg
      else if other (cap_Name c) = None then Some (Wrap msg ErrMissingRequiredCapability)
      else required_loop cs other msg)"

definition NegotiateCapabilities :: "Capability list \<Rightarrow> Capability list \<Rightarrow> Capability list outcome" where
  "NegotiateCapabilities local peer =
     obind (indexCapabilities local ''local'') (\<lambda>localByName.
     obind (indexCapabilities peer ''peer'') (\<lambda>peerByName.
     let active = active_loop local peerByName in
     case required_loop local peerByName ''local requires'' of
       Some e \<Rightarrow> Err e
     | None \<Rightarrow>
         (case required_loop peer localByName ''peer requires'' of
            Some e \<Rightarrow> Err e
          | None \<Rightarrow> Ok active)))"

section \<open>The grammar of names\<close>

definition label_tail :: "char \<Rightarrow> bool" where
  "label_tail b \<longleftrightarrow> isAlpha b \<or> isDigit b \<or> b = CHR ''-''"

definition is_label :: "string \<Rightarrow> bool" where
  "is_label l \<longleftrightarrow> (case l of [] \<Rightarrow> False | c # cs \<Rightarrow> isAlpha c \<and> list_all label_tail cs)"

definition is_major :: "string \<Rightarrow> bool" where
  "is_major m \<longleftrightarrow> m \<noteq> [] \<and> list_all isDigit m \<and> (length m > 1 \<longrightarrow> hd m \<noteq> CHR ''0'')"

text \<open>\<^verbatim>\<open>name = label *("." label) "/" major\<close>, at most 255 bytes.\<close>

definition is_capability_name :: "string \<Rightarrow> bool" where
  "is_capability_name name \<longleftrightarrow> length name \<le> 255 \<and>
     (\<exists>labels major. labels \<noteq> [] \<and> list_all is_label labels \<and> is_major major \<and>
        name = Join labels ''.'' @ ''/'' @ major)"

lemma check_label_bytes_None_iff: "check_label_bytes s = None \<longleftrightarrow> list_all label_tail s"
  by (induction s) (auto simp: label_tail_def)

lemma check_labels_None_iff: "check_labels ls = None \<longleftrightarrow> list_all is_label ls"
proof (induction ls)
  case (Cons l ls)
  then show ?case
    by (cases l) (auto simp: is_label_def simp flip: check_label_bytes_None_iff split: option.splits)
qed simp

lemma check_digits_None_iff: "check_digits s = None \<longleftrightarrow> list_all isDigit s"
  by (induction s) auto

lemma validateMajor_None_iff: "validateMajor s = None \<longleftrightarrow> is_major s"
  by (cases s) (auto simp: validateMajor_def is_major_def check_digits_None_iff)

lemma not_label_byte:
  "\<not> label_tail CHR ''/''" "\<not> label_tail CHR ''.''" "\<not> isDigit CHR ''/''"
  by (simp_all add: label_tail_def isAlpha_def isDigit_def less_eq_char_def)

lemma is_label_set: "is_label l \<Longrightarrow> list_all label_tail l"
  by (auto simp: is_label_def label_tail_def split: list.splits)

lemma label_chars:
  assumes "is_label l" shows "CHR ''/'' \<notin> set l" "CHR ''.'' \<notin> set l" "l \<noteq> []"
  using assms is_label_set [OF assms] not_label_byte
  by (auto simp: list_all_iff is_label_def)

lemma major_chars: "is_major m \<Longrightarrow> CHR ''/'' \<notin> set m"
  using not_label_byte(3) by (auto simp: is_major_def list_all_iff)

lemma set_Join: "set (Join ls sep) \<subseteq> (\<Union>l \<in> set ls. set l) \<union> set sep"
  by (induction ls sep rule: Join.induct) auto

lemma Join_labels_chars:
  "list_all is_label ls \<Longrightarrow> CHR ''/'' \<notin> set (Join ls ''.'')"
  using set_Join [of ls "''.''"] label_chars(1) by (fastforce simp: list_all_iff)

lemma Join_labels_nonempty: "ls \<noteq> [] \<Longrightarrow> list_all is_label ls \<Longrightarrow> Join ls ''.'' \<noteq> []"
  by (cases ls) (auto simp: Join_Cons dest: label_chars(3) split: list.splits, cases "tl ls", auto dest: label_chars(3))

lemma Split_labels: "ls \<noteq> [] \<Longrightarrow> list_all is_label ls \<Longrightarrow> Split (Join ls ''.'') CHR ''.'' = ls"
  by (rule Split_Join) (auto simp: list_all_iff dest: label_chars(2))

lemma validateNamespace_None_iff:
  "validateNamespace ns = None \<longleftrightarrow> (\<exists>ls. ls \<noteq> [] \<and> list_all is_label ls \<and> ns = Join ls ''.'')"
proof
  assume "validateNamespace ns = None"
  then have "list_all is_label (Split ns CHR ''.'')"
    by (auto simp: validateNamespace_def check_labels_None_iff split: if_splits)
  then show "\<exists>ls. ls \<noteq> [] \<and> list_all is_label ls \<and> ns = Join ls ''.''"
    by (metis Join_Split Split_nonempty)
next
  assume "\<exists>ls. ls \<noteq> [] \<and> list_all is_label ls \<and> ns = Join ls ''.''"
  then show "validateNamespace ns = None"
    by (auto simp: validateNamespace_def check_labels_None_iff Split_labels Join_labels_nonempty)
qed

lemma validate_at_slash:
  assumes "IndexByte name CHR ''/'' = Some i"
  shows "ValidateCapabilityName name = None \<longleftrightarrow> length name \<le> 255 \<and> take i name \<noteq> [] \<and>
    drop (Suc i) name \<noteq> [] \<and> CHR ''/'' \<notin> set (drop (Suc i) name) \<and>
    validateNamespace (take i name) = None \<and> validateMajor (drop (Suc i) name) = None"
proof -
  have "name \<noteq> []" using assms by auto
  with assms show ?thesis
    by (simp add: ValidateCapabilityName_def MaxCapabilityNameBytes_def Let_def not_less
        flip: IndexByte_None_iff split: option.split)
qed

lemma slash_unique:
  assumes "CHR ''/'' \<notin> set ns"
  shows "IndexByte (ns @ ''/'' @ major) CHR ''/'' = Some (length ns)"
  using IndexByte_append [OF assms, of major] by simp

lemma validate_iff_split:
  "ValidateCapabilityName name = None \<longleftrightarrow> length name \<le> 255 \<and>
     (\<exists>ns major. name = ns @ ''/'' @ major \<and> CHR ''/'' \<notin> set ns \<and> ns \<noteq> [] \<and> major \<noteq> [] \<and>
        CHR ''/'' \<notin> set major \<and> validateNamespace ns = None \<and> validateMajor major = None)"
  (is "?valid \<longleftrightarrow> _ \<and> (\<exists>ns major. ?parts ns major)")
proof
  assume valid: ?valid
  then obtain i where i: "IndexByte name CHR ''/'' = Some i"
    by (cases "IndexByte name CHR ''/''") (auto simp: ValidateCapabilityName_def split: if_splits)
  then have "name = take i name @ ''/'' @ drop (Suc i) name" "CHR ''/'' \<notin> set (take i name)"
    using IndexByte_split [OF i] by auto
  then have "?parts (take i name) (drop (Suc i) name)"
    using valid validate_at_slash [OF i] by (intro conjI) simp_all
  then show "length name \<le> 255 \<and> (\<exists>ns major. ?parts ns major)"
    using valid validate_at_slash [OF i] by blast
next
  assume r: "length name \<le> 255 \<and> (\<exists>ns major. ?parts ns major)"
  then obtain ns major where p: "?parts ns major" by blast
  then have "IndexByte name CHR ''/'' = Some (length ns)"
    using slash_unique [of ns major] by simp
  then show ?valid
    using validate_at_slash [of name "length ns"] p r by simp
qed

text \<open>
  C26 (capability names).  The checker accepts exactly the names of the grammar: dotted
  labels that begin with a letter and hold letters, digits and hyphens, one slash, and a
  decimal major without a leading zero, at most 255 bytes in all.
\<close>

theorem capability_name_grammar:
  "ValidateCapabilityName name = None \<longleftrightarrow> is_capability_name name"
proof
  assume "ValidateCapabilityName name = None"
  then show "is_capability_name name"
    unfolding validate_iff_split is_capability_name_def
    by (auto simp: validateNamespace_None_iff validateMajor_None_iff)
next
  assume "is_capability_name name"
  then obtain ls major where n: "length name \<le> 255" "ls \<noteq> []" "list_all is_label ls" "is_major major"
      "name = Join ls ''.'' @ ''/'' @ major"
    unfolding is_capability_name_def by blast
  moreover have "major \<noteq> []" using n(4) by (simp add: is_major_def)
  ultimately show "ValidateCapabilityName name = None"
    unfolding validate_iff_split
    using Join_labels_chars Join_labels_nonempty major_chars validateNamespace_None_iff validateMajor_None_iff
    by blast
qed

lemma take_IndexByte_append: "c \<notin> set s \<Longrightarrow> (case IndexByte (s @ c # t) c of Some i \<Rightarrow> take i (s @ c # t) | None \<Rightarrow> s @ c # t) = s"
  by (simp add: IndexByte_append)

lemma first_label:
  assumes "ls \<noteq> []" "list_all is_label ls"
  shows "(case IndexByte (Join ls ''.'') CHR ''.'' of Some i \<Rightarrow> take i (Join ls ''.'') | None \<Rightarrow> Join ls ''.'') = hd ls"
proof (cases ls)
  case (Cons l ks)
  have l: "CHR ''.'' \<notin> set l" using assms Cons label_chars(2) by simp
  show ?thesis
  proof (cases ks)
    case Nil
    then show ?thesis using l Cons by (simp add: IndexByte_None_iff [THEN iffD2])
  next
    case (Cons k ms)
    then show ?thesis using l \<open>ls = l # ks\<close> by (simp add: IndexByte_append)
  qed
qed (use assms in simp)

text \<open>
  Reserved namespace.  On a well-formed name the reserved-namespace test is exactly
  the comparison of its first label with \<open>aire\<close>: names such as \<open>airex.foo/1\<close> are free.
\<close>

theorem reserved_namespace_first_label:
  assumes "labels \<noteq> []" "list_all is_label labels"
  shows "IsReservedNamespace (Join labels ''.'' @ ''/'' @ major) \<longleftrightarrow> hd labels = ''aire''"
  using take_IndexByte_append [OF Join_labels_chars [OF assms(2)], of major] first_label [OF assms]
  by (simp add: IsReservedNamespace_def)

theorem reserved_namespace_first_label_witness:
  "IsReservedNamespace ''aire.did-method.web/1'' \<and> \<not> IsReservedNamespace ''airex.foo/1''"
proof -
  have "list_all is_label [''aire'', ''did-method'', ''web'']" "list_all is_label [''airex'', ''foo'']"
    by (simp_all add: is_label_def label_tail_def isAlpha_def isDigit_def less_eq_char_def)
  then show ?thesis
    using reserved_namespace_first_label [of "[''aire'', ''did-method'', ''web'']" "''1''"]
      reserved_namespace_first_label [of "[''airex'', ''foo'']" "''1''"]
    by simp
qed

section \<open>Negotiation meets its specification\<close>

abbreviation cap_names :: "Capability list \<Rightarrow> string list" where
  "cap_names cs \<equiv> map cap_Name cs"

definition by_name :: "Capability list \<Rightarrow> string \<rightharpoonup> Capability" where
  "by_name cs = map_of (map (\<lambda>c. (cap_Name c, c)) cs)"

lemma by_name_Nil [simp]: "by_name [] = Map.empty"
  by (simp add: by_name_def)

lemma by_name_Cons [simp]: "by_name (c # cs) = (by_name cs)(cap_Name c \<mapsto> c)"
  by (simp add: by_name_def fun_eq_iff)

lemma by_name_None: "by_name cs n = None \<longleftrightarrow> n \<notin> set (cap_names cs)"
  by (induction cs) auto

lemma dom_by_name: "dom (by_name cs) = set (cap_names cs)"
  unfolding dom_def by_name_None by blast

lemma by_name_Some_iff:
  assumes "distinct (cap_names cs)"
  shows "by_name cs n = Some c \<longleftrightarrow> c \<in> set cs \<and> cap_Name c = n"
  using assms
proof (induction cs)
  case (Cons a cs)
  have "by_name cs (cap_Name a) = None" using Cons.prems by (simp add: by_name_None)
  then show ?case using Cons by (auto simp: fun_upd_apply image_iff)
qed simp

lemma index_loop_Cons:
  "index_loop (c # cs) side idx =
     (if idx (cap_Name c) \<noteq> None then Err (Wrap (side @ '' side has duplicate capability name'') ErrMalformedHello)
      else index_loop cs side (idx(cap_Name c \<mapsto> c)))"
  by (simp add: fun_upd_def)

lemma index_loop_cases:
  "index_loop cs side idx =
     (if distinct (cap_names cs) \<and> dom idx \<inter> set (cap_names cs) = {} then Ok (idx ++ by_name cs)
      else Err (Wrap (side @ '' side has duplicate capability name'') ErrMalformedHello))"
proof (induction cs arbitrary: idx)
  case (Cons c cs)
  show ?case
  proof (cases "cap_Name c \<in> dom idx")
    case False
    have "idx(cap_Name c \<mapsto> c) ++ by_name cs = idx ++ by_name (c # cs)"
      if "cap_Name c \<notin> set (cap_names cs)"
      using that map_add_upd_left [of "cap_Name c" "by_name cs" idx c]
      by (simp add: dom_by_name)
    moreover have "idx (cap_Name c) = None" using False by (simp add: domIff)
    moreover have "distinct (cap_names cs) \<and> dom (idx(cap_Name c \<mapsto> c)) \<inter> set (cap_names cs) = {} \<longleftrightarrow>
        distinct (cap_names (c # cs)) \<and> dom idx \<inter> set (cap_names (c # cs)) = {}"
      using False by (simp only: dom_fun_upd distinct.simps list.map list.set) auto
    ultimately show ?thesis
      using False Cons.IH [of "idx(cap_Name c \<mapsto> c)"] by (simp only: index_loop_Cons) (simp del: by_name_Cons)
  qed auto
qed simp

lemma indexCapabilities_cases:
  "indexCapabilities cs side =
     (if distinct (cap_names cs) then Ok (by_name cs)
      else Err (Wrap (side @ '' side has duplicate capability name'') ErrMalformedHello))"
  by (simp add: indexCapabilities_def index_loop_cases)

lemma required_loop_None_iff:
  "required_loop cs other msg = None \<longleftrightarrow> (\<forall>c \<in> set cs. cap_Required c \<longrightarrow> other (cap_Name c) \<noteq> None)"
  by (induction cs) auto

lemma required_loop_cases:
  "required_loop cs other msg = None \<or> required_loop cs other msg = Some (Wrap msg ErrMissingRequiredCapability)"
  by (induction cs) auto

text \<open>What negotiation succeeds on, and the set it then returns.\<close>

definition compatible :: "Capability list \<Rightarrow> Capability list \<Rightarrow> bool" where
  "compatible local peer \<longleftrightarrow> distinct (cap_names local) \<and> distinct (cap_names peer) \<and>
     (\<forall>c \<in> set local. cap_Required c \<longrightarrow> cap_Name c \<in> set (cap_names peer)) \<and>
     (\<forall>c \<in> set peer. cap_Required c \<longrightarrow> cap_Name c \<in> set (cap_names local))"

definition active_set :: "Capability list \<Rightarrow> Capability list \<Rightarrow> Capability set" where
  "active_set local peer =
     {a. \<exists>lc \<in> set local. \<exists>pc \<in> set peer. cap_Name lc = cap_Name pc \<and>
         a = \<lparr>cap_Name = cap_Name lc, cap_Version = min (cap_Version lc) (cap_Version pc), cap_Required = False\<rparr>}"

lemma compatible_iff:
  "compatible local peer \<longleftrightarrow> distinct (cap_names local) \<and> distinct (cap_names peer) \<and>
     required_loop local (by_name peer) m = None \<and> required_loop peer (by_name local) m' = None"
  by (simp add: compatible_def required_loop_None_iff by_name_None)

lemma NegotiateCapabilities_Ok_iff:
  "NegotiateCapabilities local peer = Ok active \<longleftrightarrow>
   compatible local peer \<and> active = active_loop local (by_name peer)"
  unfolding compatible_iff [of local peer "''local requires''" "''peer requires''"]
  by (auto simp: NegotiateCapabilities_def indexCapabilities_cases Let_def split: option.splits)

lemma mem_active_loop:
  "a \<in> set (active_loop local m) \<longleftrightarrow>
   (\<exists>lc \<in> set local. \<exists>pc. m (cap_Name lc) = Some pc \<and>
      a = \<lparr>cap_Name = cap_Name lc, cap_Version = min (cap_Version lc) (cap_Version pc), cap_Required = False\<rparr>)"
  by (induction local) (auto simp: min_def not_less Let_def split: option.splits)

lemma set_active_loop:
  "distinct (cap_names peer) \<Longrightarrow> set (active_loop local (by_name peer)) = active_set local peer"
  unfolding set_eq_iff mem_active_loop active_set_def mem_Collect_eq by_name_Some_iff
  by metis

lemma names_active_loop:
  "cap_names (active_loop local m) = filter (\<lambda>n. m n \<noteq> None) (cap_names local)"
  by (induction local) (auto simp: Let_def split: option.splits)

lemma active_set_subset: "active_set local peer \<subseteq> active_set peer local"
proof
  fix a assume "a \<in> active_set local peer"
  then obtain lc pc where "lc \<in> set local" "pc \<in> set peer" "cap_Name lc = cap_Name pc"
      "a = \<lparr>cap_Name = cap_Name lc, cap_Version = min (cap_Version lc) (cap_Version pc), cap_Required = False\<rparr>"
    by (auto simp: active_set_def)
  then show "a \<in> active_set peer local"
    unfolding active_set_def by (intro CollectI bexI [of _ pc] bexI [of _ lc]) (auto simp: min.commute)
qed

lemma active_set_sym: "active_set local peer = active_set peer local"
  using active_set_subset by blast

lemma compatible_sym: "compatible local peer = compatible peer local"
  by (auto simp: compatible_def)

lemma list_eq_by_key:
  assumes "map f xs = map f ys" "set xs = set ys" "distinct (map f xs)"
  shows "xs = ys"
  using assms by (intro map_inj_on [of f]) (auto simp: distinct_map)

text \<open>
  C25 (negotiation).  Negotiation succeeds exactly when neither side repeats a name and each
  side offers every name the other requires; the active list then holds the common names in
  local order, each once, with the smaller of the two minors and nothing else.
\<close>

theorem negotiate_correct:
  "NegotiateCapabilities local peer = Ok active \<longleftrightarrow>
   compatible local peer \<and>
   cap_names active = filter (\<lambda>n. n \<in> set (cap_names peer)) (cap_names local) \<and>
   set active = active_set local peer"
proof (cases "compatible local peer")
  case True
  let ?a = "active_loop local (by_name peer)"
  have d: "distinct (cap_names local)" "distinct (cap_names peer)"
    using True by (auto simp: compatible_def)
  have names: "cap_names ?a = filter (\<lambda>n. n \<in> set (cap_names peer)) (cap_names local)"
    by (simp add: names_active_loop by_name_None)
  have "active = ?a" if "cap_names active = cap_names ?a" "set active = set ?a"
    using that d(1) names by (intro list_eq_by_key [of cap_Name]) auto
  then show ?thesis
    using True names set_active_loop [OF d(2), of local] by (auto simp: NegotiateCapabilities_Ok_iff)
qed (simp add: NegotiateCapabilities_Ok_iff)

text \<open>
  Both sides agree.  When the initiator's negotiation succeeds so does the
  responder's, and the two active lists hold the same capabilities with the same minors.
\<close>

theorem negotiate_symmetric:
  assumes "NegotiateCapabilities local peer = Ok active"
  shows "\<exists>active'. NegotiateCapabilities peer local = Ok active' \<and> set active' = set active"
  using assms set_active_loop [of local peer] set_active_loop [of peer local]
  by (auto simp: NegotiateCapabilities_Ok_iff compatible_sym [of peer local] active_set_sym [of peer local]
      compatible_def)

theorem negotiate_symmetric_witness:
  "\<exists>active active'. NegotiateCapabilities
      [\<lparr>cap_Name = ''a/1'', cap_Version = 3, cap_Required = True\<rparr>, \<lparr>cap_Name = ''b/1'', cap_Version = 1, cap_Required = False\<rparr>]
      [\<lparr>cap_Name = ''a/1'', cap_Version = 2, cap_Required = False\<rparr>] = Ok active \<and>
    NegotiateCapabilities
      [\<lparr>cap_Name = ''a/1'', cap_Version = 2, cap_Required = False\<rparr>]
      [\<lparr>cap_Name = ''a/1'', cap_Version = 3, cap_Required = True\<rparr>, \<lparr>cap_Name = ''b/1'', cap_Version = 1, cap_Required = False\<rparr>] = Ok active' \<and>
    set active' = set active"
proof -
  have h: "NegotiateCapabilities
      [\<lparr>cap_Name = ''a/1'', cap_Version = 3, cap_Required = True\<rparr>, \<lparr>cap_Name = ''b/1'', cap_Version = 1, cap_Required = False\<rparr>]
      [\<lparr>cap_Name = ''a/1'', cap_Version = 2, cap_Required = False\<rparr>] =
      Ok [\<lparr>cap_Name = ''a/1'', cap_Version = 2, cap_Required = False\<rparr>]"
    by (simp add: NegotiateCapabilities_def indexCapabilities_def)
  show ?thesis using h negotiate_symmetric [OF h] by blast
qed

text \<open>The names registered by the specification conform to the grammar and lie in the reserved namespace.\<close>

lemma standard_names:
  "ValidateCapabilityName CapDIDMethodWeb = None" "ValidateCapabilityName CapDIDMethodKey = None"
  "IsReservedNamespace CapDIDMethodWeb" "IsReservedNamespace CapDIDMethodKey"
  by code_simp+

end
