(* ===== verification/Signature.thy ===== *)
theory Signature imports Wire begin

text \<open>
  The signature block of \<^verbatim>\<open>identity.go\<close> and the bytes a signature covers.
  A timestamp is the 64-bit word of the Go \<^verbatim>\<open>int64\<close>; a nonce is a list of bytes, sixteen of
  them in a well-formed block.
\<close>

definition SigAlgEd25519 :: byte where
  "SigAlgEd25519 = 0x01"

text \<open>The characters of the prefix followed by the zero byte the source writes as \<^verbatim>\<open>\x00\<close>.\<close>

definition DomainSeparator :: string where
  "DomainSeparator = ''AIRE-SIG-v1'' @ [char_of_byte 0]"

record SignatureBlock =
  sb_Algorithm :: byte
  sb_VMID :: string
  sb_Nonce :: bytes
  sb_TimestampMS :: u64
  sb_Signature :: bytes

definition metaBytes :: "SignatureBlock \<Rightarrow> bytes outcome" where
  "metaBytes sb =
     obind (appendString [sb_Algorithm sb] (sb_VMID sb)) (\<lambda>out.
     let out = out @ sb_Nonce sb;
         ts = PutUint64 (sb_TimestampMS sb)
     in Ok (out @ ts))"

definition SignatureBlock_Encode :: "SignatureBlock \<Rightarrow> bytes outcome" where
  "SignatureBlock_Encode sb =
     obind (metaBytes sb) (\<lambda>out.
     obind (AppendVarint out (word_of_nat (length (sb_Signature sb)))) (\<lambda>out.
     Ok (out @ sb_Signature sb)))"

definition DecodeSignatureBlock :: "bytes \<Rightarrow> (SignatureBlock \<times> nat) outcome" where
  "DecodeSignatureBlock data =
     (if length data < 1 then Err ErrShortBuffer
      else
        obind (index 0 data) (\<lambda>alg.
        let pos = 1 in
        obind (on_err (Wrap ''sig block VMID'') (from_pos pos data readString)) (\<lambda>(vmid, n).
        let pos = pos + n in
        if length data - pos < 16 then Err (Wrap ''sig block Nonce'' ErrShortBuffer)
        else
          obind (subslice pos (pos + 16) data) (\<lambda>nonce.
          let pos = pos + 16 in
          if length data - pos < 8 then Err (Wrap ''sig block Timestamp'' ErrShortBuffer)
          else
            obind (obind (subslice pos (pos + 8) data) BE_Uint64) (\<lambda>ts.
            let pos = pos + 8 in
            obind (on_err (Wrap ''sig block SigLen'') (from_pos pos data ReadVarint)) (\<lambda>(sigLen, n).
            let pos = pos + n in
            if length data - pos < unat sigLen then Err (Wrap ''sig block SigBytes'' ErrShortBuffer)
            else
              obind (subslice pos (pos + unat sigLen) data) (\<lambda>sig.
              let pos = pos + unat sigLen in
              Ok (\<lparr>sb_Algorithm = alg, sb_VMID = vmid, sb_Nonce = nonce,
                   sb_TimestampMS = ts, sb_Signature = sig\<rparr>, pos))))))))"

definition signedMessageBytes :: "byte \<Rightarrow> bytes \<Rightarrow> SignatureBlock \<Rightarrow> bytes outcome" where
  "signedMessageBytes ft inner block =
     (let sep = bytes_of_string DomainSeparator @ [ft] in
      obind (metaBytes block) (\<lambda>m. Ok (sep @ inner @ m)))"

section \<open>The codec\<close>

definition SignatureBlock_wf :: "SignatureBlock \<Rightarrow> bool" where
  "SignatureBlock_wf sb \<longleftrightarrow> length (sb_VMID sb) < 2 ^ 62 \<and> length (sb_Nonce sb) = 16 \<and>
     length (sb_Signature sb) < 2 ^ 62"

definition sig_meta :: "SignatureBlock \<Rightarrow> bytes" where
  "sig_meta sb = sb_Algorithm sb # wire_string (sb_VMID sb) @ sb_Nonce sb @ PutUint64 (sb_TimestampMS sb)"

lemma metaBytes_Ok: "length (sb_VMID sb) < 2 ^ 62 \<Longrightarrow> metaBytes sb = Ok (sig_meta sb)"
  by (simp add: metaBytes_def sig_meta_def appendString_Ok)

lemma SignatureBlock_Encode_Ok:
  "SignatureBlock_wf sb \<Longrightarrow>
   SignatureBlock_Encode sb = Ok (sig_meta sb @ varint (word_of_nat (length (sb_Signature sb))) @ sb_Signature sb)"
  by (simp add: SignatureBlock_Encode_def SignatureBlock_wf_def metaBytes_Ok AppendVarint_Ok length_le_MaxVarint)

lemma BE_Uint64_Ok: "length b = 8 \<Longrightarrow> \<exists>v. BE_Uint64 b = Ok v"
  by (simp add: BE_Uint64_def)

lemma DecodeSignatureBlock_eq_Ok_iff:
  "DecodeSignatureBlock data = Ok (sb, k) \<longleftrightarrow>
   (\<exists>n sigLen m p. data \<noteq> [] \<and> sb_Algorithm sb = data ! 0 \<and>
      readString (drop 1 data) = Ok (sb_VMID sb, n) \<and> p = 1 + n \<and> p + 24 \<le> length data \<and>
      sb_Nonce sb = take 16 (drop p data) \<and>
      BE_Uint64 (take 8 (drop (p + 16) data)) = Ok (sb_TimestampMS sb) \<and>
      ReadVarint (drop (p + 24) data) = Ok (sigLen, m) \<and>
      k = p + 24 + m + unat sigLen \<and> k \<le> length data \<and>
      sb_Signature sb = take (unat sigLen) (drop (p + 24 + m) data))"
  (is "?l \<longleftrightarrow> ?r")
proof
  assume ?l
  then show ?r
    by (cases sb) (fastforce simp: DecodeSignatureBlock_def outcome_simps Let_def subslice_def index_def not_less
        add.assoc split: if_splits dest: wstring.dec_bounds varint.dec_bounds)
next
  assume ?r
  then obtain n sigLen m p where d: "data \<noteq> []" "sb_Algorithm sb = data ! 0"
      "readString (drop 1 data) = Ok (sb_VMID sb, n)" "p = 1 + n" "p + 24 \<le> length data"
      "sb_Nonce sb = take 16 (drop p data)"
      "BE_Uint64 (take 8 (drop (p + 16) data)) = Ok (sb_TimestampMS sb)"
      "ReadVarint (drop (p + 24) data) = Ok (sigLen, m)"
      "k = p + 24 + m + unat sigLen" "k \<le> length data"
      "sb_Signature sb = take (unat sigLen) (drop (p + 24 + m) data)"
    by blast
  then show ?l
    by (cases sb) (auto simp: DecodeSignatureBlock_def from_pos_Ok Let_def add.assoc)
qed

lemma DecodeSignatureBlock_no_panic: "DecodeSignatureBlock data \<noteq> Panic"
proof (cases "data = []")
  case False
  then have "1 \<le> length data" by (cases data) auto
  then show ?thesis
    using False readString_no_panic ReadVarint_no_panic
    by (auto simp: DecodeSignatureBlock_def Let_def obind_eq_Panic_iff from_pos_def slice_from_def subslice_def
        BE_Uint64_def split: if_splits dest: wstring.dec_bounds varint.dec_bounds)
qed (simp add: DecodeSignatureBlock_def)

lemma DecodeSignatureBlock_bound:
  "DecodeSignatureBlock data = Ok (sb, k) \<Longrightarrow> 26 \<le> k \<and> k \<le> length data"
  by (auto simp: DecodeSignatureBlock_eq_Ok_iff dest!: wstring.dec_bound varint.dec_bound)

lemma DecodeSignatureBlock_wf: "DecodeSignatureBlock data = Ok (sb, k) \<Longrightarrow> SignatureBlock_wf sb"
  by (auto simp: DecodeSignatureBlock_eq_Ok_iff SignatureBlock_wf_def le_MaxVarint_iff min_def
      dest!: ReadVarint_le_MaxVarint readString_length_varint)

lemma DecodeSignatureBlock_prefix:
  assumes "DecodeSignatureBlock data = Ok (sb, k)"
  shows "DecodeSignatureBlock (take k data @ rest) = Ok (sb, k)"
proof -
  obtain n sigLen m p where d: "data \<noteq> []" "sb_Algorithm sb = data ! 0"
      "readString (drop 1 data) = Ok (sb_VMID sb, n)" "p = 1 + n" "p + 24 \<le> length data"
      "sb_Nonce sb = take 16 (drop p data)"
      "BE_Uint64 (take 8 (drop (p + 16) data)) = Ok (sb_TimestampMS sb)"
      "ReadVarint (drop (p + 24) data) = Ok (sigLen, m)"
      "k = p + 24 + m + unat sigLen" "k \<le> length data"
      "sb_Signature sb = take (unat sigLen) (drop (p + 24 + m) data)"
    using assms unfolding DecodeSignatureBlock_eq_Ok_iff by blast
  let ?data = "take k data @ rest"
  have part: "take j (drop i ?data) = take j (drop i data)" if "i + j \<le> k" for i j
    using that d(10) by (rule take_drop_take_append)
  have "?data \<noteq> []" "?data ! 0 = data ! 0" using d(1,4,9,10) by (auto simp: nth_append)
  moreover have "readString (drop 1 ?data) = Ok (sb_VMID sb, n)"
    by (rule wstring.dec_agree [OF d(3)]) (rule part, use d in simp)
  moreover have "ReadVarint (drop (p + 24) ?data) = Ok (sigLen, m)"
    by (rule varint.dec_agree [OF d(8)]) (rule part, use d in simp)
  moreover have "k \<le> length ?data" using d(10) by simp
  ultimately show ?thesis
    unfolding DecodeSignatureBlock_eq_Ok_iff
    using d part [of p 16] part [of "p + 16" 8] part [of "p + 24 + m" "unat sigLen"]
    by (intro exI [of _ n] exI [of _ sigLen] exI [of _ m] exI [of _ p]) simp
qed

lemma DecodeSignatureBlock_Encode:
  assumes "SignatureBlock_wf sb" "SignatureBlock_Encode sb = Ok bs"
  shows "DecodeSignatureBlock bs = Ok (sb, length bs)"
proof -
  let ?s = "wire_string (sb_VMID sb)" and ?len = "word_of_nat (length (sb_Signature sb)) :: u64"
  have w: "length (sb_VMID sb) < 2 ^ 62" "length (sb_Nonce sb) = 16" "length (sb_Signature sb) < 2 ^ 62"
    using assms(1) by (auto simp: SignatureBlock_wf_def)
  have bs: "bs = sb_Algorithm sb # ?s @ sb_Nonce sb @ PutUint64 (sb_TimestampMS sb) @ varint ?len @ sb_Signature sb"
    using assms by (simp add: SignatureBlock_Encode_Ok sig_meta_def)
  have "readString (drop 1 bs) = Ok (sb_VMID sb, length ?s)" using w by (simp add: bs readString_append)
  moreover have "drop (1 + length ?s + 24) bs = varint ?len @ sb_Signature sb"
    using w by (simp add: bs drop_Cons')
  then have "ReadVarint (drop (1 + length ?s + 24) bs) = Ok (?len, length (varint ?len))"
    using w by (simp add: ReadVarint_append length_le_MaxVarint)
  moreover have "take 8 (drop (1 + length ?s + 16) bs) = PutUint64 (sb_TimestampMS sb)"
    using w by (simp add: bs drop_Cons')
  ultimately show ?thesis
    unfolding DecodeSignatureBlock_eq_Ok_iff
    using w by (intro exI [of _ "length ?s"] exI [of _ ?len] exI [of _ "length (varint ?len)"] exI [of _ "1 + length ?s"])
      (simp add: bs unat_length drop_Cons')
qed

interpretation sigblock: codec DecodeSignatureBlock SignatureBlock_Encode SignatureBlock_wf
proof unfold_locales
  fix bs sb n assume "DecodeSignatureBlock bs = Ok (sb, n)"
  then show "0 < n \<and> n \<le> length bs" using DecodeSignatureBlock_bound by fastforce
qed (auto simp: DecodeSignatureBlock_no_panic DecodeSignatureBlock_prefix DecodeSignatureBlock_Encode
    SignatureBlock_Encode_Ok)

lemma SignatureBlock_shortest:
  assumes "DecodeSignatureBlock data = Ok (sb, k)" "SignatureBlock_Encode sb = Ok bs" shows "length bs \<le> k"
proof -
  obtain n sigLen m where d: "readString (drop 1 data) = Ok (sb_VMID sb, n)"
      "ReadVarint (drop (1 + n + 24) data) = Ok (sigLen, m)" "k = 1 + n + 24 + m + unat sigLen"
      "length (sb_Signature sb) = unat sigLen" "length (sb_Nonce sb) = 16"
    using assms(1) unfolding DecodeSignatureBlock_eq_Ok_iff by auto
  have "length bs = 1 + length (wire_string (sb_VMID sb)) + 24 + length (varint sigLen) + unat sigLen"
    using assms(2) SignatureBlock_Encode_Ok [OF DecodeSignatureBlock_wf [OF assms(1)]] d(4,5)
    by (auto simp: sig_meta_def)
  then show ?thesis using wire_string_shortest [OF d(1)] varint_shortest [OF d(2)] d(3) by simp
qed

interpretation sigblock_canonical: canonical_codec DecodeSignatureBlock SignatureBlock_Encode SignatureBlock_wf
  by unfold_locales (auto intro: DecodeSignatureBlock_wf SignatureBlock_shortest)

section \<open>Properties\<close>

lemma sig_meta_inject:
  assumes "SignatureBlock_wf a" "SignatureBlock_wf b" "sig_meta a @ r = sig_meta b @ s"
  shows "a\<lparr>sb_Signature := []\<rparr> = b\<lparr>sb_Signature := []\<rparr> \<and> r = s"
proof -
  let ?a = "a\<lparr>sb_Signature := []\<rparr>" and ?b = "b\<lparr>sb_Signature := []\<rparr>"
  have wf: "SignatureBlock_wf ?a" "SignatureBlock_wf ?b" using assms by (simp_all add: SignatureBlock_wf_def)
  have e: "SignatureBlock_Encode ?a = Ok (sig_meta a @ varint 0)" "SignatureBlock_Encode ?b = Ok (sig_meta b @ varint 0)"
    using SignatureBlock_Encode_Ok [OF wf(1)] SignatureBlock_Encode_Ok [OF wf(2)] by (simp_all add: sig_meta_def)
  have wire: "readString (wire_string (sb_VMID a) @ x) = readString (wire_string (sb_VMID b) @ y) \<Longrightarrow>
      sb_VMID a = sb_VMID b" for x y
    using assms(1,2) by (simp add: SignatureBlock_wf_def readString_append)
  have "sb_VMID a = sb_VMID b"
    by (rule wire [of "sb_Nonce a @ PutUint64 (sb_TimestampMS a) @ r" "sb_Nonce b @ PutUint64 (sb_TimestampMS b) @ s"])
       (use assms(3) in \<open>simp add: sig_meta_def\<close>)
  then have "length (sig_meta a) = length (sig_meta b)"
    using assms(1,2) by (simp add: sig_meta_def SignatureBlock_wf_def)
  then have "sig_meta a = sig_meta b" "r = s" using assms(3) by auto
  then show ?thesis using sigblock.payload.penc_inject [OF wf] e by simp
qed

text \<open>
  C29 (signature block round trip).  A block with a 16-byte nonce encodes without a panic,
  and decoding the encoding, whatever follows it, gives exactly the block and its length.
\<close>

theorem signature_block_roundtrip:
  assumes "length (sb_VMID sb) < 2 ^ 62" "length (sb_Nonce sb) = 16" "length (sb_Signature sb) < 2 ^ 62"
  shows "\<exists>bs. SignatureBlock_Encode sb = Ok bs \<and> DecodeSignatureBlock (bs @ rest) = Ok (sb, length bs)"
proof -
  have wf: "SignatureBlock_wf sb" using assms by (simp add: SignatureBlock_wf_def)
  then show ?thesis using sigblock.enc_total [OF wf] sigblock.dec_enc_append [OF wf] by blast
qed

theorem signature_block_roundtrip_witness:
  "\<exists>bs. SignatureBlock_Encode
          \<lparr>sb_Algorithm = 1, sb_VMID = ''did:web:a#k'', sb_Nonce = replicate 16 7, sb_TimestampMS = - 1, sb_Signature = [1, 2]\<rparr>
        = Ok bs \<and>
        DecodeSignatureBlock (bs @ [5]) =
          Ok (\<lparr>sb_Algorithm = 1, sb_VMID = ''did:web:a#k'', sb_Nonce = replicate 16 7, sb_TimestampMS = - 1, sb_Signature = [1, 2]\<rparr>,
              length bs)"
  by (rule signature_block_roundtrip) simp_all

text \<open>
  Signature block decoding.  The decoder never panics; what it accepts is at least 26
  bytes long, lies within the input, carries a 16-byte nonce and depends on no byte after
  those it consumed.
\<close>

theorem signature_block_decode_safe:
  "DecodeSignatureBlock data \<noteq> Panic \<and>
   (DecodeSignatureBlock data = Ok (sb, n) \<longrightarrow>
      26 \<le> n \<and> n \<le> length data \<and> length (sb_Nonce sb) = 16 \<and>
      DecodeSignatureBlock (take n data @ rest) = Ok (sb, n))"
  using DecodeSignatureBlock_no_panic DecodeSignatureBlock_bound DecodeSignatureBlock_wf
    DecodeSignatureBlock_prefix
  by (auto simp: SignatureBlock_wf_def)

theorem signature_block_decode_safe_witness:
  "DecodeSignatureBlock ([1, 1, 0x61, 1, 2, 3, 4, 5, 6, 7, 8, 9, 10, 11, 12, 13, 14, 15, 16, 0, 0, 0, 0, 0, 0, 0, 0, 0] @ [9]) \<noteq> Panic \<and>
   DecodeSignatureBlock ([1, 1, 0x61, 1, 2, 3, 4, 5, 6, 7, 8, 9, 10, 11, 12, 13, 14, 15, 16, 0, 0, 0, 0, 0, 0, 0, 0, 0]) = Ok (\<lparr>sb_Algorithm = 1, sb_VMID = ''a'', sb_Nonce = [1, 2, 3, 4, 5, 6, 7, 8, 9, 10, 11, 12, 13, 14, 15, 16], sb_TimestampMS = 0, sb_Signature = []\<rparr>, 28)"
proof -
  let ?d = "[1, 1, 0x61, 1, 2, 3, 4, 5, 6, 7, 8, 9, 10, 11, 12, 13, 14, 15, 16, 0, 0, 0, 0, 0, 0, 0, 0, 0] :: bytes"
  let ?sb = "\<lparr>sb_Algorithm = 1, sb_VMID = ''a'', sb_Nonce = [1, 2, 3, 4, 5, 6, 7, 8, 9, 10, 11, 12, 13, 14, 15, 16], sb_TimestampMS = 0, sb_Signature = []\<rparr>"
  have "SignatureBlock_Encode ?sb = Ok ?d"
    by (simp add: SignatureBlock_Encode_def metaBytes_def appendString_def AppendVarint_def MaxVarint_def
        bytes_of_string_def byte_of_char_def PutUint64_def)
  then have "DecodeSignatureBlock (?d @ [9]) = Ok (?sb, length ?d)"
    by (intro sigblock.dec_enc_append) (simp_all add: SignatureBlock_wf_def)
  then show ?thesis
    using signature_block_decode_safe [of "?d @ [9]" ?sb 28 "[]"] by simp
qed

text \<open>
  What a signature covers.  Two signed messages are equal only if they are for the
  same frame type; when their inner parts have the same length they also carry the same
  inner bytes and the same algorithm, verification method, nonce and timestamp.
\<close>

theorem signed_message_binding:
  assumes "SignatureBlock_wf a" "SignatureBlock_wf b"
    and "signedMessageBytes ft inner a = signedMessageBytes ft' inner' b"
  shows "ft = ft' \<and>
    (length inner = length inner' \<longrightarrow>
       inner = inner' \<and> a\<lparr>sb_Signature := []\<rparr> = b\<lparr>sb_Signature := []\<rparr>)"
proof -
  have v: "length (sb_VMID a) < 2 ^ 62" "length (sb_VMID b) < 2 ^ 62"
    using assms(1,2) by (auto simp: SignatureBlock_wf_def)
  have m: "ft = ft'" "inner @ sig_meta a = inner' @ sig_meta b"
    using assms(3) v by (simp_all add: signedMessageBytes_def metaBytes_Ok)
  then show ?thesis using sig_meta_inject [OF assms(1,2), of "[]" "[]"] by auto
qed

theorem signed_message_binding_witness:
  "signedMessageBytes FrameHello [1, 2]
     \<lparr>sb_Algorithm = 1, sb_VMID = ''a'', sb_Nonce = replicate 16 7, sb_TimestampMS = 0, sb_Signature = []\<rparr> =
   signedMessageBytes FrameHello [1, 2]
     \<lparr>sb_Algorithm = 1, sb_VMID = ''a'', sb_Nonce = replicate 16 7, sb_TimestampMS = 0, sb_Signature = [9]\<rparr> \<and>
   FrameHello = FrameHello \<and> [1, 2 :: byte] = [1, 2]"
proof -
  let ?a = "\<lparr>sb_Algorithm = 1, sb_VMID = ''a'', sb_Nonce = replicate 16 7, sb_TimestampMS = 0, sb_Signature = []\<rparr>"
  let ?b = "\<lparr>sb_Algorithm = 1, sb_VMID = ''a'', sb_Nonce = replicate 16 7, sb_TimestampMS = 0, sb_Signature = [9]\<rparr>"
  have h: "SignatureBlock_wf ?a" "SignatureBlock_wf ?b"
      "signedMessageBytes FrameHello [1, 2] ?a = signedMessageBytes FrameHello [1, 2] ?b"
    by (simp_all add: SignatureBlock_wf_def signedMessageBytes_def metaBytes_def)
  show ?thesis using signed_message_binding [OF h] h(3) by blast
qed

end
