(* ===== verification/Base58.thy ===== *)
theory Base58 imports Go_Strings begin

text \<open>
  The base58btc codec of \<^verbatim>\<open>identity.go\<close>.  \<^verbatim>\<open>big.Int\<close> is a natural number.  Encoding and
  decoding are both a change of radix that keeps leading zeros, so the round trips are
  proved once, in a locale for a pair of radices, and carried to the byte and character
  alphabets by the model's own digit maps.
\<close>

section \<open>The operations\<close>

definition b58Alphabet :: string where
  "b58Alphabet = ''123456789ABCDEFGHJKLMNPQRSTUVWXYZabcdefghijkmnopqrstuvwxyz''"

text \<open>\<^verbatim>\<open>big.Int.SetBytes\<close> and \<^verbatim>\<open>big.Int.Bytes\<close>: big-endian, the latter without leading zeros.\<close>

definition SetBytes :: "bytes \<Rightarrow> nat" where
  "SetBytes data = foldl (\<lambda>n b. n * 256 + unat b) 0 data"

fun Int_Bytes :: "nat \<Rightarrow> bytes" where
  "Int_Bytes n = (if n = 0 then [] else Int_Bytes (n div 256) @ [word_of_nat (n mod 256)])"

declare Int_Bytes.simps [simp del]

text \<open>The loop \<^verbatim>\<open>for n.Sign() > 0\<close>, which appends the digits from the least significant one.\<close>

fun quorem_loop :: "nat \<Rightarrow> string \<Rightarrow> string" where
  "quorem_loop n out =
     (if n > 0 then quorem_loop (n div 58) (out @ [b58Alphabet ! (n mod 58)]) else out)"

declare quorem_loop.simps [simp del]

fun lead_loop :: "bytes \<Rightarrow> string \<Rightarrow> string" where
  "lead_loop [] out = out"
| "lead_loop (b # bs) out = (if b = 0 then lead_loop bs (out @ ''1'') else out)"

text \<open>The in-place reversal; \<^verbatim>\<open>j\<close> is decremented only while it is positive.\<close>

function reverse_loop :: "nat \<Rightarrow> nat \<Rightarrow> 'a list \<Rightarrow> 'a list" where
  "reverse_loop i j out =
     (if i < j then reverse_loop (i + 1) (j - 1) (out[i := out ! j, j := out ! i]) else out)"
  by pat_completeness auto
termination by (relation "measure (\<lambda>(i, j, out). j - i)") auto

declare reverse_loop.simps [simp del]

definition base58btcEncode :: "bytes \<Rightarrow> string" where
  "base58btcEncode data =
     (let n = SetBytes data;
          out = quorem_loop n [];
          out = lead_loop data out
      in reverse_loop 0 (length out - 1) out)"

fun decode_loop :: "string \<Rightarrow> nat \<Rightarrow> nat outcome" where
  "decode_loop [] n = Ok n"
| "decode_loop (c # cs) n =
     (case IndexByte b58Alphabet c of
        None \<Rightarrow> Err (Errorf ''base58btc: invalid character'')
      | Some idx \<Rightarrow> decode_loop cs (n * 58 + idx))"

fun count_lead :: "string \<Rightarrow> nat" where
  "count_lead [] = 0"
| "count_lead (c # cs) = (if c = CHR ''1'' then Suc (count_lead cs) else 0)"

definition base58btcDecode :: "string \<Rightarrow> bytes outcome" where
  "base58btcDecode s =
     obind (decode_loop s 0) (\<lambda>n.
     let out = Int_Bytes n; lead = count_lead s
     in Ok (if lead > 0 then replicate lead 0 @ out else out))"

section \<open>Positional notation\<close>

fun digits :: "nat \<Rightarrow> nat \<Rightarrow> nat list" where
  "digits b n = (if n = 0 \<or> b < 2 then [] else digits b (n div b) @ [n mod b])"

declare digits.simps [simp del]

definition val :: "nat \<Rightarrow> nat list \<Rightarrow> nat" where
  "val b ds = foldl (\<lambda>n d. n * b + d) 0 ds"

definition lead0 :: "nat list \<Rightarrow> nat" where
  "lead0 ds = length (takeWhile (\<lambda>d. d = 0) ds)"

definition radix :: "nat \<Rightarrow> nat \<Rightarrow> nat list \<Rightarrow> nat list" where
  "radix b c ds = replicate (lead0 ds) 0 @ digits c (val b ds)"

lemma val_snoc [simp]: "val b (ds @ [d]) = val b ds * b + d"
  by (simp add: val_def)

lemma val_Nil [simp]: "val b [] = 0"
  by (simp add: val_def)

lemma lead0_split: "ds = replicate (lead0 ds) 0 @ dropWhile (\<lambda>d. d = 0) ds"
proof -
  have "takeWhile (\<lambda>d. d = 0) ds = replicate (lead0 ds) 0"
    unfolding lead0_def by (rule replicate_eqI) (auto dest: set_takeWhileD)
  then show ?thesis by (metis takeWhile_dropWhile_id)
qed

lemma val_replicate_0: "val b (replicate k 0 @ ds) = val b ds"
proof -
  have "foldl (\<lambda>n d. n * b + d) 0 (replicate k 0) = 0" by (induction k) auto
  then show ?thesis by (simp add: val_def)
qed

lemma lead0_replicate: "ds = [] \<or> hd ds \<noteq> 0 \<Longrightarrow> lead0 (replicate k 0 @ ds) = k"
  by (cases ds) (auto simp: lead0_def takeWhile_append)

text \<open>A radix of at least two: digit lists and numbers are inverse up to leading zeros.\<close>

locale numeral_base =
  fixes b :: nat
  assumes base_ge_2: "2 \<le> b"
begin

lemma digits_step: "n \<noteq> 0 \<Longrightarrow> digits b n = digits b (n div b) @ [n mod b]"
  using base_ge_2 by (simp add: digits.simps [of b n])

lemma digits_0 [simp]: "digits b 0 = []"
  by (simp add: digits.simps)

lemma digits_induct [case_names zero step]:
  assumes "P 0" "\<And>n. n \<noteq> 0 \<Longrightarrow> P (n div b) \<Longrightarrow> P n"
  shows "P n"
proof (induction n rule: less_induct)
  case (less n)
  show ?case
  proof (cases "n = 0")
    case False
    then have "n div b < n" using base_ge_2 by simp
    then show ?thesis using less assms(2) False by blast
  qed (simp add: assms(1))
qed

lemma val_digits: "val b (digits b n) = n"
  by (induction n rule: digits_induct) (simp_all add: digits_step)

lemma digits_less: "d \<in> set (digits b n) \<Longrightarrow> d < b"
  using base_ge_2 by (induction n rule: digits_induct) (auto simp: digits_step)

lemma digits_canonical: "digits b n = [] \<or> hd (digits b n) \<noteq> 0"
proof (induction n rule: digits_induct)
  case (step n)
  show ?case
  proof (cases "n div b = 0")
    case True
    then have "n mod b = n" by (metis add.left_neutral div_mult_mod_eq mult_0)
    then show ?thesis using step(1) True by (simp add: digits_step)
  next
    case False
    then have "digits b (n div b) \<noteq> []" by (metis val_digits val_Nil)
    then show ?thesis using step by (simp add: digits_step)
  qed
qed simp

lemma val_pos:
  "ds \<noteq> [] \<Longrightarrow> hd ds \<noteq> 0 \<Longrightarrow> val b ds \<noteq> 0"
  using base_ge_2 by (induction ds rule: rev_induct) (auto simp: hd_append split: if_splits)

lemma digits_val:
  "ds = [] \<or> hd ds \<noteq> 0 \<Longrightarrow> \<forall>d \<in> set ds. d < b \<Longrightarrow> digits b (val b ds) = ds"
proof (induction ds rule: rev_induct)
  case (snoc d ds)
  have "val b (ds @ [d]) \<noteq> 0" using snoc.prems by (intro val_pos) auto
  moreover have "(val b ds * b + d) div b = val b ds" "(val b ds * b + d) mod b = d"
    using snoc.prems(2) by auto
  moreover have "digits b (val b ds) = ds"
    using snoc by (cases ds) auto
  ultimately show ?case by (simp add: digits_step)
qed simp

lemma length_digits: "n < b ^ k \<Longrightarrow> length (digits b n) \<le> k"
proof (induction k arbitrary: n)
  case (Suc k)
  show ?case
  proof (cases "n = 0")
    case False
    have "n div b < b ^ k" using Suc.prems base_ge_2 by (simp add: less_mult_imp_div_less mult.commute)
    then show ?thesis using Suc.IH False by (simp add: digits_step)
  qed simp
qed simp

lemma val_less: "\<forall>d \<in> set ds. d < b \<Longrightarrow> val b ds < b ^ length ds"
proof (induction ds rule: rev_induct)
  case (snoc d ds)
  then have "Suc (val b ds) \<le> b ^ length ds" "d < b" by auto
  then have "val b ds * b + d < Suc (val b ds) * b" by simp
  also have "\<dots> \<le> b ^ length ds * b" using \<open>Suc (val b ds) \<le> b ^ length ds\<close> by (rule mult_le_mono1)
  finally show ?case by (simp add: mult.commute)
qed simp

lemma val_radix: "val b (radix c b ds) = val c ds"
  by (simp add: radix_def val_replicate_0 val_digits)

lemma lead0_radix: "lead0 (radix c b ds) = lead0 ds"
  unfolding radix_def by (rule lead0_replicate) (rule digits_canonical)

lemma radix_less: "d \<in> set (radix c b ds) \<Longrightarrow> d < b"
  using base_ge_2 digits_less by (auto simp: radix_def)

end

text \<open>Two radices: converting there and back is the identity on digit lists.\<close>

locale radix_pair = src: numeral_base b + dst: numeral_base c for b c :: nat
begin

lemma radix_roundtrip:
  assumes "\<forall>d \<in> set ds. d < b"
  shows "radix c b (radix b c ds) = ds"
proof -
  let ?t = "dropWhile (\<lambda>d. d = 0) ds"
  have t: "ds = replicate (lead0 ds) 0 @ ?t" by (rule lead0_split)
  have "val b ds = val b ?t" by (subst t) (rule val_replicate_0)
  moreover have "?t = [] \<or> hd ?t \<noteq> 0" using hd_dropWhile [of "\<lambda>d. d = 0" ds] by blast
  then have "digits b (val b ?t) = ?t"
    using assms by (intro src.digits_val) (auto dest: set_dropWhileD)
  ultimately have "radix c b (radix b c ds) = replicate (lead0 ds) 0 @ ?t"
    by (simp add: radix_def [of c b] dst.val_radix dst.lead0_radix)
  then show ?thesis using t by simp
qed

end

interpretation b58: radix_pair 256 58
  by unfold_locales auto

interpretation b256: radix_pair 58 256
  by unfold_locales auto

section \<open>The codec is a change of radix\<close>

lemma length_b58Alphabet [simp]: "length b58Alphabet = 58"
  by (simp add: b58Alphabet_def)

lemma distinct_b58Alphabet: "distinct b58Alphabet"
  by (simp add: b58Alphabet_def)

lemma IndexByte_b58Alphabet: "IndexByte b58Alphabet c = Some i \<longleftrightarrow> i < 58 \<and> b58Alphabet ! i = c"
proof
  assume r: "i < 58 \<and> b58Alphabet ! i = c"
  then have "b58Alphabet = take i b58Alphabet @ c # drop (Suc i) b58Alphabet"
    using id_take_nth_drop [of i b58Alphabet] by simp
  then have "c \<notin> set (take i b58Alphabet)"
    using distinct_b58Alphabet by (metis distinct_append disjoint_iff list.set_intros(1))
  then show "IndexByte b58Alphabet c = Some i" using r by (simp add: IndexByte_Some_iff)
qed (simp add: IndexByte_Some_iff)

lemma b58Alphabet_0: "i < 58 \<Longrightarrow> b58Alphabet ! i = CHR ''1'' \<longleftrightarrow> i = 0"
  using nth_eq_iff_index_eq [OF distinct_b58Alphabet, of i 0] by (simp add: b58Alphabet_def)

lemma length_reverse_loop [simp]: "length (reverse_loop i j out) = length out"
  by (induction i j out rule: reverse_loop.induct) (subst reverse_loop.simps, simp)

lemma nth_reverse_loop:
  "j < length out \<Longrightarrow> k < length out \<Longrightarrow>
   reverse_loop i j out ! k = (if i \<le> k \<and> k \<le> j then out ! (i + j - k) else out ! k)"
proof (induction i j out rule: reverse_loop.induct)
  case (1 i j out)
  show ?case
  proof (cases "i < j")
    case True
    then have "reverse_loop i j out ! k =
        (if i + 1 \<le> k \<and> k \<le> j - 1 then out[i := out ! j, j := out ! i] ! (i + j - k)
         else out[i := out ! j, j := out ! i] ! k)"
      using 1 by (subst reverse_loop.simps) simp
    then show ?thesis using True 1(2,3) by (auto simp: nth_list_update)
  next
    case False
    then have "reverse_loop i j out = out" by (subst reverse_loop.simps) simp
    then show ?thesis using False by (cases "k = i") auto
  qed
qed

lemma reverse_loop_rev: "reverse_loop 0 (length out - 1) out = rev out"
proof (cases "out = []")
  case True
  then show ?thesis by (simp add: reverse_loop.simps)
next
  case False
  then show ?thesis by (intro nth_equalityI) (auto simp: nth_reverse_loop rev_nth)
qed

lemma quorem_loop_digits: "quorem_loop n out = out @ rev (map (nth b58Alphabet) (digits 58 n))"
proof (induction n arbitrary: out rule: b58.dst.digits_induct)
  case (step n)
  then show ?case by (subst quorem_loop.simps) (simp add: b58.dst.digits_step)
qed (simp add: quorem_loop.simps)

lemma lead0_Cons: "lead0 (d # ds) = (if d = 0 then Suc (lead0 ds) else 0)"
  by (simp add: lead0_def)

lemma lead_loop_replicate: "lead_loop data out = out @ replicate (lead0 (map unat data)) CHR ''1''"
  by (induction data arbitrary: out) (auto simp: lead0_Cons unat_eq_0 simp: lead0_def)

lemma SetBytes_val: "SetBytes data = val 256 (map unat data)"
  by (simp add: SetBytes_def val_def foldl_map)

lemma base58btcEncode_radix:
  "base58btcEncode data = map (nth b58Alphabet) (radix 256 58 (map unat data))"
proof -
  have "b58Alphabet ! 0 = CHR ''1''" by (simp add: b58Alphabet_0)
  then show ?thesis
    by (simp add: base58btcEncode_def Let_def reverse_loop_rev [simplified] quorem_loop_digits lead_loop_replicate
        SetBytes_val radix_def)
qed

definition b58_digit :: "char \<Rightarrow> nat" where
  "b58_digit c = the (IndexByte b58Alphabet c)"

lemma b58_digit_nth [simp]: "i < 58 \<Longrightarrow> b58_digit (b58Alphabet ! i) = i"
  using IndexByte_b58Alphabet [of "b58Alphabet ! i" i] by (simp add: b58_digit_def)

lemma b58_digit_props:
  "c \<in> set b58Alphabet \<Longrightarrow> b58_digit c < 58 \<and> b58Alphabet ! b58_digit c = c"
  by (auto simp: in_set_conv_nth)

lemma decode_loop_foldl:
  "decode_loop s n =
     (if set s \<subseteq> set b58Alphabet then Ok (foldl (\<lambda>n d. n * 58 + d) n (map b58_digit s))
      else Err (Errorf ''base58btc: invalid character''))"
proof (induction s arbitrary: n)
  case (Cons c s)
  have "IndexByte b58Alphabet c = Some i \<Longrightarrow> b58_digit c = i" for i by (simp add: b58_digit_def)
  then show ?case using Cons IndexByte_None_iff [of b58Alphabet c] by (auto split: option.splits)
qed simp

lemma count_lead_lead0:
  "set s \<subseteq> set b58Alphabet \<Longrightarrow> count_lead s = lead0 (map b58_digit s)"
proof (induction s)
  case (Cons c s)
  then have "b58_digit c = 0 \<longleftrightarrow> c = CHR ''1''"
    using b58_digit_props [of c] b58Alphabet_0 [of "b58_digit c"] by auto
  then show ?case using Cons by (simp add: lead0_Cons)
qed (simp add: lead0_def)

lemma Int_Bytes_digits: "Int_Bytes n = map word_of_nat (digits 256 n)"
  by (induction n rule: b58.src.digits_induct)
     (simp_all add: Int_Bytes.simps [of "_ :: nat"] b58.src.digits_step)

lemma base58btcDecode_radix:
  "base58btcDecode s =
     (if set s \<subseteq> set b58Alphabet then Ok (map word_of_nat (radix 58 256 (map b58_digit s)))
      else Err (Errorf ''base58btc: invalid character''))"
  by (simp add: base58btcDecode_def decode_loop_foldl count_lead_lead0 Int_Bytes_digits radix_def val_def Let_def)

section \<open>Round trips\<close>

lemma unat_byte_less: "d \<in> set (map unat (data :: bytes)) \<Longrightarrow> d < 256"
proof -
  have "unat b < 256" for b :: byte using unsigned_less [of b] by simp
  then show "d \<in> set (map unat data) \<Longrightarrow> d < 256" by auto
qed

lemma map_digit_nth: "\<forall>d \<in> set ds. d < 58 \<Longrightarrow> map b58_digit (map (nth b58Alphabet) ds) = ds"
  by (simp add: map_idI)

lemma map_nth_digit: "set s \<subseteq> set b58Alphabet \<Longrightarrow> map (nth b58Alphabet) (map b58_digit s) = s"
  using b58_digit_props by (induction s) auto

lemma map_unat_of_nat: "\<forall>d \<in> set ds. d < 256 \<Longrightarrow> map (unat \<circ> (word_of_nat :: nat \<Rightarrow> byte)) ds = ds"
  by (auto intro!: map_idI simp: unsigned_of_nat take_bit_nat_eq_self)

lemma map_of_nat_unat: "map (word_of_nat \<circ> unat) (data :: bytes) = data"
  by (simp add: comp_def)

lemma base58btcEncode_alphabet: "set (base58btcEncode data) \<subseteq> set b58Alphabet"
  using b58.dst.radix_less [of _ 256 "map unat data"]
  by (auto simp: base58btcEncode_radix intro!: nth_mem)

lemma length_base58btcEncode:
  assumes "length data = 34" shows "length (base58btcEncode data) \<le> 81"
proof -
  have "val 256 (map unat data) < 256 ^ length (map unat data)"
    by (rule b58.src.val_less) (use unat_byte_less in blast)
  also have "\<dots> < 58 ^ 47" using assms by simp
  finally have "length (digits 58 (val 256 (map unat data))) \<le> 47" by (rule b58.dst.length_digits)
  moreover have "lead0 (map unat data) \<le> 34"
    using assms length_takeWhile_le [of "\<lambda>d. d = 0" "map unat data"] by (simp add: lead0_def)
  ultimately show ?thesis by (simp add: base58btcEncode_radix radix_def)
qed

lemma base58btcDecode_Encode: "base58btcDecode (base58btcEncode data) = Ok data"
proof -
  let ?r = "radix 256 58 (map unat data)"
  have "map b58_digit (base58btcEncode data) = ?r"
    unfolding base58btcEncode_radix using b58.dst.radix_less by (intro map_digit_nth) blast
  then show ?thesis
    using base58btcEncode_alphabet [of data] b58.radix_roundtrip [of "map unat data"] unat_byte_less
    by (simp add: base58btcDecode_radix map_of_nat_unat)
qed

lemma base58btcEncode_Decode:
  assumes "base58btcDecode s = Ok data" shows "base58btcEncode data = s"
proof -
  have s: "set s \<subseteq> set b58Alphabet" "data = map word_of_nat (radix 58 256 (map b58_digit s))"
    using assms by (auto simp: base58btcDecode_radix split: if_splits)
  have "map unat data = radix 58 256 (map b58_digit s)"
    unfolding s(2) map_map using b58.src.radix_less by (intro map_unat_of_nat) blast
  moreover have "\<forall>d \<in> set (map b58_digit s). d < 58"
    using s(1) b58_digit_props by auto
  ultimately show ?thesis
    using b256.radix_roundtrip [of "map b58_digit s"] map_nth_digit [OF s(1)]
    by (simp add: base58btcEncode_radix del: map_map)
qed

text \<open>
  C27 (base58 is a bijection).  Decoding accepts exactly the strings over the alphabet, and
  a string decodes to some bytes exactly when it is the encoding of those bytes: leading
  zero bytes and leading ones included, no byte sequence has two spellings.
\<close>

theorem base58_bijection:
  "(base58btcDecode s = Ok data \<longleftrightarrow> s = base58btcEncode data) \<and>
   ((\<exists>data. base58btcDecode s = Ok data) \<longleftrightarrow> set s \<subseteq> set b58Alphabet)"
proof
  show "base58btcDecode s = Ok data \<longleftrightarrow> s = base58btcEncode data"
    using base58btcDecode_Encode base58btcEncode_Decode by blast
qed (simp add: base58btcDecode_radix)

end
