(* ===== verification/DIDKey.thy ===== *)
theory DIDKey imports Base58 begin

text \<open>
  \<^verbatim>\<open>did:key\<close> identifiers of \<^verbatim>\<open>identity.go\<close>: the multibase form of an Ed25519 public key, the
  identifier made from it and the verification-method id.  A string is accepted exactly
  when it is the canonical identifier of one 32-byte key.
\<close>

definition ed25519PubMulticodec :: bytes where
  "ed25519PubMulticodec = [0xED, 0x01]"

text \<open>\<^verbatim>\<open>ed25519.PublicKeySize\<close>.\<close>

definition PublicKeySize :: nat where
  "PublicKeySize = 32"

definition encodeMultibaseEd25519 :: "bytes \<Rightarrow> string" where
  "encodeMultibaseEd25519 pub =
     (let raw = ed25519PubMulticodec @ pub in ''z'' @ base58btcEncode raw)"

definition decodeMultibaseEd25519 :: "string \<Rightarrow> bytes outcome" where
  "decodeMultibaseEd25519 s =
     (if length s < 2 \<or> s ! 0 \<noteq> CHR ''z'' then Err (Errorf ''multibase must start with z'')
      else
        obind (base58btcDecode (drop 1 s)) (\<lambda>raw.
        if length raw < 2 \<or> raw ! 0 \<noteq> 0xED \<or> raw ! 1 \<noteq> 0x01 then Err (Errorf ''not an Ed25519 multikey'')
        else if length raw - 2 \<noteq> PublicKeySize then Err (Errorf ''Ed25519 pubkey length'')
        else Ok (drop 2 raw)))"

definition didKeyPrefix :: string where
  "didKeyPrefix = ''did:key:''"

definition MakeDIDKey :: "bytes \<Rightarrow> string" where
  "MakeDIDKey pub = didKeyPrefix @ encodeMultibaseEd25519 pub"

definition ParseDIDKey :: "string \<Rightarrow> bytes outcome" where
  "ParseDIDKey did =
     (if \<not> HasPrefix did didKeyPrefix then Err (Errorf ''not a did:key'')
      else obind (slice_from (length didKeyPrefix) did) decodeMultibaseEd25519)"

definition DIDKeyVMID :: "string \<Rightarrow> string outcome" where
  "DIDKeyVMID did =
     obind (slice_from (length didKeyPrefix) did) (\<lambda>fragment. Ok (did @ ''#'' @ fragment))"

section \<open>Canonical identifiers\<close>

lemma base58btcEncode_nonempty: "data \<noteq> [] \<Longrightarrow> base58btcEncode data \<noteq> []"
  using base58btcDecode_Encode [of data] base58btcDecode_Encode [of "[]"]
  by (metis base58btcEncode_radix digits.simps lead0_def list.size(3) map_is_Nil_conv outcome.inject(1)
      radix_def replicate_0 append_Nil takeWhile.simps(1) val_Nil)

lemma decodeMultibase_no_panic: "decodeMultibaseEd25519 s \<noteq> Panic"
  by (auto simp: decodeMultibaseEd25519_def base58btcDecode_radix obind_eq_Panic_iff split: if_splits)

lemma decodeMultibase_Ok_iff:
  "decodeMultibaseEd25519 s = Ok pub \<longleftrightarrow> length pub = 32 \<and> s = encodeMultibaseEd25519 pub"
proof
  assume "decodeMultibaseEd25519 s = Ok pub"
  then obtain raw where r: "2 \<le> length s" "s ! 0 = CHR ''z''" "base58btcDecode (drop 1 s) = Ok raw"
      "2 \<le> length raw" "raw ! 0 = 0xED" "raw ! 1 = 0x01" "length raw - 2 = 32" "pub = drop 2 raw"
    by (auto simp: decodeMultibaseEd25519_def PublicKeySize_def obind_eq_Ok_iff not_less split: if_splits)
  have "raw = [raw ! 0, raw ! 1] @ drop 2 raw"
    using r(4) by (cases raw; cases "tl raw") auto
  then have "raw = ed25519PubMulticodec @ pub" using r by (simp add: ed25519PubMulticodec_def)
  moreover have "s = s ! 0 # drop 1 s" using r(1) by (cases s) auto
  ultimately show "length pub = 32 \<and> s = encodeMultibaseEd25519 pub"
    using r base58btcEncode_Decode [OF r(3)] by (simp add: encodeMultibaseEd25519_def)
next
  assume p: "length pub = 32 \<and> s = encodeMultibaseEd25519 pub"
  have ne: "base58btcEncode (ed25519PubMulticodec @ pub) \<noteq> []"
    by (rule base58btcEncode_nonempty) (simp add: ed25519PubMulticodec_def)
  then have "2 \<le> length s" using p by (cases "base58btcEncode (ed25519PubMulticodec @ pub)")
      (auto simp: encodeMultibaseEd25519_def)
  then show "decodeMultibaseEd25519 s = Ok pub"
    using p ne base58btcDecode_Encode [of "ed25519PubMulticodec @ pub"]
    by (simp add: decodeMultibaseEd25519_def encodeMultibaseEd25519_def PublicKeySize_def ed25519PubMulticodec_def)
qed

lemma ParseDIDKey_append: "ParseDIDKey (didKeyPrefix @ s) = decodeMultibaseEd25519 s"
  by (simp add: ParseDIDKey_def)

lemma ParseDIDKey_Ok_iff: "ParseDIDKey did = Ok pub \<longleftrightarrow> length pub = 32 \<and> did = MakeDIDKey pub"
proof (cases "HasPrefix did didKeyPrefix")
  case True
  then obtain s where "did = didKeyPrefix @ s" by (auto simp: HasPrefix_iff)
  then show ?thesis by (simp add: ParseDIDKey_append decodeMultibase_Ok_iff MakeDIDKey_def)
next
  case False
  then show ?thesis by (auto simp: ParseDIDKey_def MakeDIDKey_def)
qed

lemma ParseDIDKey_no_panic: "ParseDIDKey did \<noteq> Panic"
proof (cases "HasPrefix did didKeyPrefix")
  case True
  then obtain s where "did = didKeyPrefix @ s" by (auto simp: HasPrefix_iff)
  then show ?thesis by (simp add: ParseDIDKey_append decodeMultibase_no_panic)
qed (simp add: ParseDIDKey_def)

lemma hash_notin_b58: "CHR ''#'' \<notin> set b58Alphabet"
  by (simp add: b58Alphabet_def)

lemma hash_notin_MakeDIDKey: "CHR ''#'' \<notin> set (MakeDIDKey pub)"
  using base58btcEncode_alphabet [of "ed25519PubMulticodec @ pub"] hash_notin_b58
  by (auto simp: MakeDIDKey_def didKeyPrefix_def encodeMultibaseEd25519_def)

lemma DIDKeyVMID_MakeDIDKey:
  "DIDKeyVMID (MakeDIDKey pub) = Ok (MakeDIDKey pub @ CHR ''#'' # encodeMultibaseEd25519 pub)"
  by (simp add: DIDKeyVMID_def MakeDIDKey_def)

lemma length_MakeDIDKey:
  assumes "length pub = 32"
  shows "length (MakeDIDKey pub) \<le> 90" "length (encodeMultibaseEd25519 pub) \<le> 82"
  using length_base58btcEncode [of "ed25519PubMulticodec @ pub"] assms
  by (simp_all add: MakeDIDKey_def didKeyPrefix_def encodeMultibaseEd25519_def ed25519PubMulticodec_def)

lemma Cut_VMID: "Cut (MakeDIDKey pub @ CHR ''#'' # frag) CHR ''#'' = (MakeDIDKey pub, frag)"
  by (rule Cut_append) (rule hash_notin_MakeDIDKey)

text \<open>
  C28 (did:key identifiers).  Parsing accepts a string exactly when it is the identifier
  the library makes from a 32-byte public key, and returns that key: identifiers and keys
  are in bijection, and parsing never panics.
\<close>

theorem did_key_bijection:
  "ParseDIDKey did \<noteq> Panic \<and>
   (ParseDIDKey did = Ok pub \<longleftrightarrow> length pub = PublicKeySize \<and> did = MakeDIDKey pub)"
  using ParseDIDKey_no_panic ParseDIDKey_Ok_iff by (simp add: PublicKeySize_def)

text \<open>
  Verification-method id.  The id made from a did:key cuts back at its hash sign into
  that did:key and the multibase key; making one from a string shorter than the
  \<^verbatim>\<open>did:key:\<close> prefix panics.
\<close>

theorem did_key_vmid:
  "(\<exists>vmid. DIDKeyVMID (MakeDIDKey pub) = Ok vmid \<and>
           Cut vmid CHR ''#'' = (MakeDIDKey pub, encodeMultibaseEd25519 pub)) \<and>
   (DIDKeyVMID did = Panic \<longleftrightarrow> length did < length didKeyPrefix)"
proof
  show "\<exists>vmid. DIDKeyVMID (MakeDIDKey pub) = Ok vmid \<and>
           Cut vmid CHR ''#'' = (MakeDIDKey pub, encodeMultibaseEd25519 pub)"
    using DIDKeyVMID_MakeDIDKey Cut_VMID by blast
qed (auto simp: DIDKeyVMID_def slice_from_def)

end
