(* ===== verification/Go_URL.thy ===== *)
theory Go_URL imports Go_Strings begin

text \<open>
  What the library uses of Go's \<^verbatim>\<open>net/url\<close> package and the trimming functions of
  \<^verbatim>\<open>strings\<close>, as Go 1.24 (the version of \<^verbatim>\<open>go.mod\<close>) has them: percent-decoding in the modes
  of the URL parser, \<^verbatim>\<open>PathUnescape\<close>, \<^verbatim>\<open>QueryEscape\<close>, \<^verbatim>\<open>Parse\<close> and \<^verbatim>\<open>URL.Port\<close>.
  The parsed URL keeps its scheme and host, the two components the library reads; the
  checks on user information, path and fragment are made, their values dropped.
\<close>

abbreviation (input) char_code :: "char \<Rightarrow> nat" where "char_code c \<equiv> of_char c"

definition url_alnum :: "char \<Rightarrow> bool" where
  "url_alnum c \<longleftrightarrow>
     97 \<le> char_code c \<and> char_code c \<le> 122 \<or> 65 \<le> char_code c \<and> char_code c \<le> 90 \<or>
     48 \<le> char_code c \<and> char_code c \<le> 57"

definition ishex :: "char \<Rightarrow> bool" where
  "ishex c \<longleftrightarrow>
     48 \<le> char_code c \<and> char_code c \<le> 57 \<or> 97 \<le> char_code c \<and> char_code c \<le> 102 \<or>
     65 \<le> char_code c \<and> char_code c \<le> 70"

definition unhex :: "char \<Rightarrow> nat" where
  "unhex c =
     (if 48 \<le> char_code c \<and> char_code c \<le> 57 then char_code c - 48
      else if 97 \<le> char_code c \<and> char_code c \<le> 102 then char_code c - 97 + 10
      else if 65 \<le> char_code c \<and> char_code c \<le> 70 then char_code c - 65 + 10
      else 0)"

datatype encoding = encodePath | encodePathSegment | encodeHost | encodeZone | encodeUserPassword | encodeFragment

text \<open>\<^verbatim>\<open>shouldEscape\<close> in the host modes, the only ones whose decoding consults it.\<close>

definition host_shouldEscape :: "char \<Rightarrow> bool" where
  "host_shouldEscape c \<longleftrightarrow>
     \<not> url_alnum c \<and> c \<notin> set ''!$&()*+,;=:[]<>-_.~'' \<and> c \<noteq> CHR 0x27 \<and> c \<noteq> CHR 0x22"

fun unescape :: "string \<Rightarrow> encoding \<Rightarrow> string outcome" where
  "unescape [] mode = Ok []"
| "unescape (c # s) mode =
     (if c = CHR ''%'' then
        (case s of
           h # l # s' \<Rightarrow>
             (let v = 16 * unhex h + unhex l in
              if \<not> ishex h \<or> \<not> ishex l then Err (Errorf ''invalid URL escape'')
              else if mode = encodeHost \<and> unhex h < 8 \<and> \<not> (h = CHR ''2'' \<and> l = CHR ''5'')
              then Err (Errorf ''invalid URL escape'')
              else if mode = encodeZone \<and> \<not> (h = CHR ''2'' \<and> l = CHR ''5'') \<and> v \<noteq> 32 \<and>
                host_shouldEscape (char_of v)
              then Err (Errorf ''invalid URL escape'')
              else obind (unescape s' mode) (\<lambda>r. Ok (char_of v # r)))
         | _ \<Rightarrow> Err (Errorf ''invalid URL escape''))
      else if (mode = encodeHost \<or> mode = encodeZone) \<and> char_code c < 128 \<and> host_shouldEscape c
      then Err (Errorf ''invalid character in host name'')
      else obind (unescape s mode) (\<lambda>r. Ok (c # r)))"

definition PathUnescape :: "string \<Rightarrow> string outcome" where
  "PathUnescape s = unescape s encodePathSegment"

definition upperhex :: "nat \<Rightarrow> char" where
  "upperhex n = ''0123456789ABCDEF'' ! n"

fun QueryEscape :: "string \<Rightarrow> string" where
  "QueryEscape [] = []"
| "QueryEscape (c # s) =
     (if url_alnum c \<or> c \<in> set ''-_.~'' then [c]
      else if c = CHR '' '' then ''+''
      else [CHR ''%'', upperhex (char_code c div 16), upperhex (char_code c mod 16)]) @ QueryEscape s"

section \<open>Last index\<close>

definition LastIndexByte :: "string \<Rightarrow> char \<Rightarrow> nat option" where
  "LastIndexByte s c = map_option (\<lambda>i. length s - Suc i) (IndexByte (rev s) c)"

fun Index3 :: "string \<Rightarrow> char \<Rightarrow> char \<Rightarrow> char \<Rightarrow> nat option" where
  "Index3 (x # y # z # s) a b c =
     (if x = a \<and> y = b \<and> z = c then Some 0 else map_option Suc (Index3 (y # z # s) a b c))"
| "Index3 _ a b c = None"

section \<open>Parsing\<close>

record URL =
  u_Scheme :: string
  u_Host :: string

definition to_lower :: "char \<Rightarrow> char" where
  "to_lower c = (if 65 \<le> char_code c \<and> char_code c \<le> 90 then char_of (char_code c + 32) else c)"

definition ContainsCTLByte :: "string \<Rightarrow> bool" where
  "ContainsCTLByte s \<longleftrightarrow> (\<exists>c \<in> set s. char_code c < 32 \<or> char_code c = 127)"

text \<open>\<open>getScheme seen rest\<close>: the loop over the bytes of the URL, \<open>seen\<close> those passed.\<close>

fun getScheme_loop :: "string \<Rightarrow> string \<Rightarrow> (string \<times> string) outcome" where
  "getScheme_loop seen [] = Ok ('''', seen)"
| "getScheme_loop seen (c # s) =
     (if 97 \<le> char_code c \<and> char_code c \<le> 122 \<or> 65 \<le> char_code c \<and> char_code c \<le> 90
      then getScheme_loop (seen @ [c]) s
      else if 48 \<le> char_code c \<and> char_code c \<le> 57 \<or> c \<in> set ''+-.'' then
        (if seen = [] then Ok ('''', seen @ c # s) else getScheme_loop (seen @ [c]) s)
      else if c = CHR '':'' then
        (if seen = [] then Err (Errorf ''missing protocol scheme'') else Ok (seen, s))
      else Ok ('''', seen @ c # s))"

definition getScheme :: "string \<Rightarrow> (string \<times> string) outcome" where
  "getScheme s = getScheme_loop [] s"

definition validOptionalPort :: "string \<Rightarrow> bool" where
  "validOptionalPort port \<longleftrightarrow>
     port = '''' \<or> port ! 0 = CHR '':'' \<and> list_all (\<lambda>c. 48 \<le> char_code c \<and> char_code c \<le> 57) (drop 1 port)"

definition validUserinfo :: "string \<Rightarrow> bool" where
  "validUserinfo s \<longleftrightarrow> list_all (\<lambda>c. url_alnum c \<or> c \<in> set ''-._:~!$&()*+,;=%@'' \<or> c = CHR 0x27) s"

definition parseHost :: "string \<Rightarrow> string outcome" where
  "parseHost host =
     (if HasPrefix host ''['' then
        (case LastIndexByte host CHR '']'' of
           None \<Rightarrow> Err (Errorf ''missing ] in host'')
         | Some i \<Rightarrow>
             if \<not> validOptionalPort (drop (i + 1) host) then Err (Errorf ''invalid port after host'')
             else (case Index3 (take i host) CHR ''%'' CHR ''2'' CHR ''5'' of
                 Some zone \<Rightarrow>
                   obind (unescape (take zone host) encodeHost) (\<lambda>host1.
                   obind (unescape (take (i - zone) (drop zone host)) encodeZone) (\<lambda>host2.
                   obind (unescape (drop i host) encodeHost) (\<lambda>host3.
                   Ok (host1 @ host2 @ host3))))
               | None \<Rightarrow> unescape host encodeHost))
      else (case LastIndexByte host CHR '':'' of
          Some i \<Rightarrow>
            if \<not> validOptionalPort (drop i host) then Err (Errorf ''invalid port after host'')
            else unescape host encodeHost
        | None \<Rightarrow> unescape host encodeHost))"

definition check_userinfo :: "string \<Rightarrow> unit outcome" where
  "check_userinfo userinfo =
     (if \<not> validUserinfo userinfo then Err (Errorf ''net/url: invalid userinfo'')
      else if CHR '':'' \<notin> set userinfo then
        obind (unescape userinfo encodeUserPassword) (\<lambda>_. Ok ())
      else
        obind (unescape (fst (Cut userinfo CHR '':'')) encodeUserPassword) (\<lambda>_.
        obind (unescape (snd (Cut userinfo CHR '':'')) encodeUserPassword) (\<lambda>_. Ok ())))"

definition parseAuthority :: "string \<Rightarrow> string outcome" where
  "parseAuthority authority =
     (case LastIndexByte authority CHR ''@'' of
        None \<Rightarrow> parseHost authority
      | Some i \<Rightarrow>
          obind (parseHost (drop (i + 1) authority)) (\<lambda>host.
          obind (check_userinfo (take i authority)) (\<lambda>_. Ok host)))"

definition url_parse :: "string \<Rightarrow> URL outcome" where
  "url_parse rawURL =
     (if ContainsCTLByte rawURL then Err (Errorf ''net/url: invalid control character in URL'')
      else if rawURL = ''*'' then Ok \<lparr>u_Scheme = '''', u_Host = ''''\<rparr>
      else
        obind (getScheme rawURL) (\<lambda>(scheme, rest).
        let scheme = map to_lower scheme;
            rest = fst (Cut rest CHR ''?'')
        in
        if \<not> HasPrefix rest ''/'' \<and> scheme \<noteq> '''' then Ok \<lparr>u_Scheme = scheme, u_Host = ''''\<rparr>
        else if \<not> HasPrefix rest ''/'' \<and> CHR '':'' \<in> set (fst (Cut rest CHR ''/'')) then
          Err (Errorf ''first path segment in URL cannot contain colon'')
        else if (scheme \<noteq> '''' \<or> \<not> HasPrefix rest ''///'') \<and> HasPrefix rest ''//'' then
          (let authority = drop 2 rest;
               (authority, path) =
                 (case IndexByte authority CHR ''/'' of
                    Some i \<Rightarrow> (take i authority, drop i authority)
                  | None \<Rightarrow> (authority, ''''))
           in obind (parseAuthority authority) (\<lambda>host.
              obind (unescape path encodePath) (\<lambda>_.
              Ok \<lparr>u_Scheme = scheme, u_Host = host\<rparr>)))
        else obind (unescape rest encodePath) (\<lambda>_. Ok \<lparr>u_Scheme = scheme, u_Host = ''''\<rparr>)))"

definition url_Parse :: "string \<Rightarrow> URL outcome" where
  "url_Parse rawURL =
     (let (u, frag) = Cut rawURL CHR ''#'' in
      obind (on_err (Wrap ''parse'') (url_parse u)) (\<lambda>url.
      if frag = '''' then Ok url
      else obind (on_err (Wrap ''parse'') (unescape frag encodeFragment)) (\<lambda>_. Ok url)))"

definition URL_Port :: "URL \<Rightarrow> string" where
  "URL_Port u =
     (case LastIndexByte (u_Host u) CHR '':'' of
        Some colon \<Rightarrow> if validOptionalPort (drop colon (u_Host u)) then drop (colon + 1) (u_Host u) else ''''
      | None \<Rightarrow> '''')"

section \<open>Trimming\<close>

text \<open>The UTF-8 encodings of the code points that \<^verbatim>\<open>unicode.IsSpace\<close> accepts.\<close>

definition spaces :: "string list" where
  "spaces = map (map char_of_byte)
     ([[9], [10], [11], [12], [13], [32], [0xC2, 0x85], [0xC2, 0xA0], [0xE1, 0x9A, 0x80]] @
      map (\<lambda>x. [0xE2, 0x80, x]) [0x80, 0x81, 0x82, 0x83, 0x84, 0x85, 0x86, 0x87, 0x88, 0x89, 0x8A, 0xA8, 0xA9, 0xAF] @
      [[0xE2, 0x81, 0x9F], [0xE3, 0x80, 0x80]])"

function trim_prefixes :: "string list \<Rightarrow> string \<Rightarrow> string" where
  "trim_prefixes ps s =
     (case find (\<lambda>p. p \<noteq> [] \<and> HasPrefix s p) ps of
        Some p \<Rightarrow> trim_prefixes ps (drop (length p) s)
      | None \<Rightarrow> s)"
  by pat_completeness auto
termination
  by (relation "measure (\<lambda>(ps, s). length s)")
     (auto simp: find_Some_iff HasPrefix_iff)

declare trim_prefixes.simps [simp del]

definition TrimSpace :: "string \<Rightarrow> string" where
  "TrimSpace s = rev (trim_prefixes (map rev spaces) (rev (trim_prefixes spaces s)))"

text \<open>\<^verbatim>\<open>strings.TrimRight(s, "\n")\<close>.\<close>

definition TrimRight_newline :: "string \<Rightarrow> string" where
  "TrimRight_newline s = rev (dropWhile (\<lambda>c. c = CHR 0x0A) (rev s))"

section \<open>Laws\<close>

lemma unescape_no_panic: "unescape s mode \<noteq> Panic"
  by (induction s mode rule: unescape.induct)
     (auto simp: obind_eq_Panic_iff Let_def split: list.splits if_splits)

lemma parseHost_no_panic: "parseHost s \<noteq> Panic"
  by (auto simp: parseHost_def obind_eq_Panic_iff unescape_no_panic split: option.splits)

lemma parseAuthority_no_panic: "parseAuthority s \<noteq> Panic"
  by (auto simp: parseAuthority_def check_userinfo_def obind_eq_Panic_iff unescape_no_panic parseHost_no_panic
      split: option.splits)

lemma getScheme_loop_no_panic: "getScheme_loop seen s \<noteq> Panic"
  by (induction seen s rule: getScheme_loop.induct) auto

lemma url_Parse_no_panic: "url_Parse s \<noteq> Panic"
proof -
  have "url_parse u \<noteq> Panic" for u
    using getScheme_loop_no_panic [of "[]" u]
    by (auto simp: url_parse_def getScheme_def obind_eq_Panic_iff unescape_no_panic parseAuthority_no_panic Let_def
        split: option.splits)
  then show ?thesis by (auto simp: url_Parse_def obind_eq_Panic_iff unescape_no_panic split: prod.splits)
qed

lemma unescape_plain: "CHR ''%'' \<notin> set s \<Longrightarrow> mode \<noteq> encodeHost \<Longrightarrow> mode \<noteq> encodeZone \<Longrightarrow> unescape s mode = Ok s"
  by (induction s mode rule: unescape.induct) auto

lemma PathUnescape_plain: "CHR ''%'' \<notin> set s \<Longrightarrow> PathUnescape s = Ok s"
  by (simp add: PathUnescape_def unescape_plain)

end
