(* ===== verification/Addressing.thy ===== *)
theory Addressing imports Go_URL begin

text \<open>
  \<^verbatim>\<open>addressing.go\<close>: handles, \<^verbatim>\<open>did:web\<close> URLs, DID documents and the resolver.

  The network is an argument.  \<open>network\<close> holds what the process has by default, an HTTP
  client and a DNS lookup, together with the request constructor and the JSON decoder of
  documents; a \<open>Resolver\<close> may replace the first two.  Each answers by the URL or the name it
  is asked for, with the context of the call already applied.  A response body is the bytes
  that arrive and the error, if any, that ends them.
\<close>

section \<open>Data\<close>

record Address =
  a_DID :: string
  a_Endpoint :: string
  a_AgentID :: string
  a_Accept :: "string list"

record serviceEndpoint =
  se_URI :: string
  se_Accept :: "string list"
  se_AgentID :: string

record serviceEntry =
  sv_ID :: string
  sv_Type :: string
  sv_ServiceEndpoint :: "serviceEndpoint list"

record verificationMethod =
  vm_ID :: string
  vm_Type :: string
  vm_Controller :: string
  vm_PublicKeyMultibase :: string

record didDocument =
  dd_ID :: string
  dd_AlsoKnownAs :: "string list"
  dd_Service :: "serviceEntry list"
  dd_VerificationMethod :: "verificationMethod list"

record http_response =
  StatusCode :: int
  Body :: bytes
  Body_error :: "error option"

type_synonym http_client = "string \<Rightarrow> http_response outcome"
type_synonym txt_lookup = "string \<Rightarrow> string list outcome"

record network =
  NewRequest :: "string \<Rightarrow> error option"
  DefaultClient :: http_client
  DefaultLookupTXT :: txt_lookup
  Unmarshal :: "bytes \<Rightarrow> didDocument outcome"

record Resolver =
  r_HTTPClient :: "http_client option"
  r_LookupTXT :: "txt_lookup option"

section \<open>Operations\<close>

definition httpClient :: "network \<Rightarrow> Resolver \<Rightarrow> http_client" where
  "httpClient net r = (case r_HTTPClient r of Some c \<Rightarrow> c | None \<Rightarrow> DefaultClient net)"

definition lookupTXT :: "network \<Rightarrow> Resolver \<Rightarrow> txt_lookup" where
  "lookupTXT net r name =
     (case r_LookupTXT r of Some f \<Rightarrow> f name | None \<Rightarrow> DefaultLookupTXT net name)"

fun unescape_parts :: "string list \<Rightarrow> string list \<Rightarrow> string list outcome" where
  "unescape_parts [] pathParts = Ok pathParts"
| "unescape_parts (p # ps) pathParts =
     obind (on_err (\<lambda>_. Wrap ''path segment'' ErrMalformedDIDWeb) (PathUnescape p)) (\<lambda>decoded.
     unescape_parts ps (pathParts @ [decoded]))"

definition didWebToURL :: "string \<Rightarrow> string outcome" where
  "didWebToURL did =
     (if \<not> HasPrefix did ''did:web:'' then Err (Wrap ''not a did:web'' ErrMalformedDIDWeb)
      else
        let rest = TrimPrefix did ''did:web:'' in
        if rest = '''' then Err (Wrap ''empty identifier'' ErrMalformedDIDWeb)
        else
          let parts = Split rest CHR '':'' in
          obind (index 0 parts) (\<lambda>part0.
          obind (on_err (\<lambda>_. Wrap ''host'' ErrMalformedDIDWeb) (PathUnescape part0)) (\<lambda>host.
          if host = '''' then Err (Wrap ''empty host'' ErrMalformedDIDWeb)
          else if length parts = 1 then Ok (''https://'' @ host @ ''/.well-known/did.json'')
          else
            obind (unescape_parts (drop 1 parts) []) (\<lambda>pathParts.
            Ok (''https://'' @ host @ ''/'' @ Join pathParts ''/'' @ ''/did.json'')))))"

definition parseHandle :: "string \<Rightarrow> (string \<times> string) outcome" where
  "parseHandle s =
     (let s = TrimPrefix s ''@'' in
      if s = '''' then Err (Wrap ''empty'' ErrMalformedHandle)
      else
        (case IndexByte s CHR ''@'' of
           None \<Rightarrow> Err (Wrap ''missing @'' ErrMalformedHandle)
         | Some at \<Rightarrow>
             let local = take at s; domain = drop (at + 1) s in
             if local = '''' \<or> domain = '''' then Err (Wrap ''empty part'' ErrMalformedHandle)
             else if CHR ''@'' \<in> set domain then Err (Wrap ''too many @'' ErrMalformedHandle)
             else Ok (local, domain)))"

definition parseTXTDIDValue :: "string \<Rightarrow> string outcome" where
  "parseTXTDIDValue s =
     (if \<not> HasPrefix s ''did='' then Err (Errorf ''aire: TXT record missing did= prefix'')
      else
        let did = TrimPrefix s ''did='' in
        if did = '''' \<or> \<not> HasPrefix did ''did:'' then Err (Errorf ''aire: TXT record value is not a DID'')
        else Ok did)"

definition verifyAlsoKnownAs :: "didDocument \<Rightarrow> string \<Rightarrow> string \<Rightarrow> error option" where
  "verifyAlsoKnownAs doc local domain =
     (let expected = ''aire://'' @ local @ ''@'' @ domain in
      if expected \<in> set (dd_AlsoKnownAs doc) then None
      else Some (Wrap ''expected in alsoKnownAs'' ErrAlsoKnownAsMismatch))"

definition parseAIREURI :: "string \<Rightarrow> string outcome" where
  "parseAIREURI s =
     (if s = '''' then Err (Errorf ''aire: empty URI'')
      else
        obind (on_err (Wrap ''aire: parse URI'') (url_Parse s)) (\<lambda>u.
        if u_Scheme u \<noteq> ''aire'' then Err (Errorf ''aire: not an aire URI'')
        else if u_Host u = '''' then Err (Errorf ''aire: empty host in URI'')
        else if URL_Port u = '''' then Ok (u_Host u @ '':4433'')
        else Ok (u_Host u)))"

text \<open>The two nested loops of \<^verbatim>\<open>pickAIREv1\<close>; \<open>None\<close> when a loop ends without a return.\<close>

fun pick_endpoint :: "serviceEndpoint list \<Rightarrow> string \<Rightarrow> Address option" where
  "pick_endpoint [] defaultAgentID = None"
| "pick_endpoint (ep # eps) defaultAgentID =
     (case parseAIREURI (se_URI ep) of
        Ok endpoint \<Rightarrow>
          Some \<lparr>a_DID = '''', a_Endpoint = endpoint,
                a_AgentID = (if se_AgentID ep = '''' then defaultAgentID else se_AgentID ep),
                a_Accept = se_Accept ep\<rparr>
      | _ \<Rightarrow> pick_endpoint eps defaultAgentID)"

fun pick_service :: "serviceEntry list \<Rightarrow> string \<Rightarrow> Address option" where
  "pick_service [] defaultAgentID = None"
| "pick_service (svc # svcs) defaultAgentID =
     (if sv_Type svc \<noteq> ''AIREv1'' then pick_service svcs defaultAgentID
      else case pick_endpoint (sv_ServiceEndpoint svc) defaultAgentID of
        Some a \<Rightarrow> Some a
      | None \<Rightarrow> pick_service svcs defaultAgentID)"

definition pickAIREv1 :: "didDocument \<Rightarrow> string \<Rightarrow> Address outcome" where
  "pickAIREv1 doc defaultAgentID =
     (case pick_service (dd_Service doc) defaultAgentID of
        Some a \<Rightarrow> Ok a
      | None \<Rightarrow> Err ErrNoAIREv1Service)"

text \<open>\<^verbatim>\<open>io.ReadAll\<close> of a body, and of a body behind \<^verbatim>\<open>io.LimitReader\<close>.\<close>

definition ReadAll :: "http_response \<Rightarrow> bytes outcome" where
  "ReadAll resp = (case Body_error resp of None \<Rightarrow> Ok (Body resp) | Some e \<Rightarrow> Err e)"

definition ReadAll_limit :: "nat \<Rightarrow> http_response \<Rightarrow> bytes outcome" where
  "ReadAll_limit n resp = (if n \<le> length (Body resp) then Ok (take n (Body resp)) else ReadAll resp)"

definition fetchDIDDocument :: "network \<Rightarrow> Resolver \<Rightarrow> string \<Rightarrow> didDocument outcome" where
  "fetchDIDDocument net r docURL =
     (case NewRequest net docURL of
        Some e \<Rightarrow> Err e
      | None \<Rightarrow>
          obind (on_err (Wrap ''aire: fetch'') (httpClient net r docURL)) (\<lambda>resp.
          if StatusCode resp \<noteq> 200 then Err (Errorf ''aire: fetch: status'')
          else
            obind (on_err (Wrap ''aire: read'') (ReadAll resp)) (\<lambda>body.
            on_err (Wrap ''aire: parse DID Document'') (Unmarshal net body))))"

definition resolveHandleViaTXT :: "network \<Rightarrow> Resolver \<Rightarrow> string \<Rightarrow> string \<Rightarrow> string outcome" where
  "resolveHandleViaTXT net r local domain =
     (let name = ''_aire.'' @ local @ ''.'' @ domain in
      obind (lookupTXT net r name) (\<lambda>records.
      if length records = 0 then Err (Errorf ''aire: no TXT records'')
      else if length records > 1 then Err (Errorf ''aire: multiple TXT records; ambiguous'')
      else obind (index 0 records) parseTXTDIDValue))"

definition resolveHandleViaWellKnown :: "network \<Rightarrow> Resolver \<Rightarrow> string \<Rightarrow> string \<Rightarrow> string outcome" where
  "resolveHandleViaWellKnown net r local domain =
     (let wkURL = ''https://'' @ domain @ ''/.well-known/aire-did?name='' @ QueryEscape local in
      case NewRequest net wkURL of
        Some e \<Rightarrow> Err e
      | None \<Rightarrow>
          obind (on_err (Wrap ''aire: fetch'') (httpClient net r wkURL)) (\<lambda>resp.
          if StatusCode resp \<noteq> 200 then Err (Errorf ''aire: well-known: status'')
          else
            obind (on_err (Wrap ''aire: read'') (ReadAll_limit 4096 resp)) (\<lambda>body.
            let did = TrimRight_newline (TrimSpace (string_of_bytes body)) in
            if did = '''' \<or> \<not> HasPrefix did ''did:'' then Err (Errorf ''aire: well-known: body is not a DID'')
            else Ok did)))"

definition resolveHandle :: "network \<Rightarrow> Resolver \<Rightarrow> string \<Rightarrow> string \<Rightarrow> string outcome" where
  "resolveHandle net r local domain =
     (case resolveHandleViaTXT net r local domain of
        Ok did \<Rightarrow> Ok did
      | Err _ \<Rightarrow> resolveHandleViaWellKnown net r local domain
      | Panic \<Rightarrow> Panic)"

text \<open>\<^verbatim>\<open>strings.SplitN(did, ":", 3)\<close> and the method prefix it gives.\<close>

definition SplitN3 :: "string \<Rightarrow> char \<Rightarrow> string list" where
  "SplitN3 s c =
     (case Split s c of a # b # d # ds \<Rightarrow> [a, b, Join (d # ds) [c]] | parts \<Rightarrow> parts)"

definition methodOf :: "string \<Rightarrow> string" where
  "methodOf did =
     (let parts = SplitN3 did CHR '':'' in
      if length parts \<ge> 2 then ''did:'' @ parts ! 1 else did)"

definition resolveDIDWeb :: "network \<Rightarrow> Resolver \<Rightarrow> string \<Rightarrow> string \<Rightarrow> (Address \<times> didDocument) outcome" where
  "resolveDIDWeb net r did defaultAgentID =
     obind (didWebToURL did) (\<lambda>docURL.
     obind (fetchDIDDocument net r docURL) (\<lambda>doc.
     obind (pickAIREv1 doc defaultAgentID) (\<lambda>addr.
     Ok (addr\<lparr>a_DID := did\<rparr>, doc))))"

definition resolveDID :: "network \<Rightarrow> Resolver \<Rightarrow> string \<Rightarrow> string \<Rightarrow> (Address \<times> didDocument) outcome" where
  "resolveDID net r did defaultAgentID =
     (if HasPrefix did ''did:web:'' then resolveDIDWeb net r did defaultAgentID
      else if HasPrefix did ''did:key:'' then
        Err (Wrap ''did:key has no service entry; provide an explicit endpoint'' ErrUnsupportedDIDMethod)
      else Err (Wrap (methodOf did) ErrUnsupportedDIDMethod))"

definition Resolver_Resolve :: "network \<Rightarrow> Resolver \<Rightarrow> string \<Rightarrow> Address outcome" where
  "Resolver_Resolve net r ref =
     (if HasPrefix ref ''did:'' then obind (resolveDID net r ref '''') (\<lambda>(addr, _). Ok addr)
      else
        obind (parseHandle ref) (\<lambda>(local, domain).
        obind (resolveHandle net r local domain) (\<lambda>did.
        obind (resolveDID net r did local) (\<lambda>(addr, doc).
        case verifyAlsoKnownAs doc local domain of
          Some e \<Rightarrow> Err e
        | None \<Rightarrow> Ok addr))))"

definition Resolve :: "network \<Rightarrow> string \<Rightarrow> Address outcome" where
  "Resolve net ref = Resolver_Resolve net \<lparr>r_HTTPClient = None, r_LookupTXT = None\<rparr> ref"

section \<open>Handles and did:web\<close>

lemma TrimPrefix_at:
  "TrimPrefix s ''@'' = (case s of [] \<Rightarrow> [] | c # cs \<Rightarrow> if c = CHR ''@'' then cs else s)"
  by (cases s) (auto simp: TrimPrefix_def HasPrefix_def)

lemma parseHandle_Ok_iff:
  "parseHandle s = Ok (local, domain) \<longleftrightarrow>
   local \<noteq> [] \<and> domain \<noteq> [] \<and> CHR ''@'' \<notin> set local \<and> CHR ''@'' \<notin> set domain \<and>
   TrimPrefix s ''@'' = local @ CHR ''@'' # domain"
  (is "?l \<longleftrightarrow> ?r")
proof
  assume ?l
  then obtain i where "IndexByte (TrimPrefix s ''@'') CHR ''@'' = Some i"
      "local = take i (TrimPrefix s ''@'')" "domain = drop (Suc i) (TrimPrefix s ''@'')"
      "local \<noteq> []" "domain \<noteq> []" "CHR ''@'' \<notin> set domain"
    by (auto simp: parseHandle_def Let_def split: if_splits option.splits)
  then show ?r using IndexByte_split [of "TrimPrefix s ''@''" "CHR ''@''" i] by auto
next
  assume ?r
  then show ?l by (simp add: parseHandle_def Let_def IndexByte_append)
qed

lemma parseHandle_no_panic: "parseHandle s \<noteq> Panic"
  by (auto simp: parseHandle_def Let_def split: if_splits option.splits)

text \<open>
  Handles.  Parsing never panics and accepts exactly \<^verbatim>\<open>local@domain\<close> and \<^verbatim>\<open>@local@domain\<close>
  with both parts non-empty and free of the at sign, and returns those parts.
\<close>

theorem handle_grammar:
  "parseHandle s \<noteq> Panic \<and>
   (parseHandle s = Ok (local, domain) \<longleftrightarrow>
      local \<noteq> '''' \<and> domain \<noteq> '''' \<and> CHR ''@'' \<notin> set local \<and> CHR ''@'' \<notin> set domain \<and>
      (s = local @ ''@'' @ domain \<or> s = ''@'' @ local @ ''@'' @ domain))"
  using parseHandle_no_panic [of s]
  by (cases s; cases local) (auto simp: parseHandle_Ok_iff TrimPrefix_at)

lemma unescape_parts_plain:
  "\<forall>p \<in> set ps. CHR ''%'' \<notin> set p \<Longrightarrow> unescape_parts ps acc = Ok (acc @ ps)"
  by (induction ps arbitrary: acc) (simp_all add: PathUnescape_plain)

lemma HasPrefix_did_web [simp]: "HasPrefix (CHR ''d'' # CHR ''i'' # CHR ''d'' # CHR '':'' # CHR ''w'' # CHR ''e'' # CHR ''b'' # CHR '':'' # s) ''did:web:''"
  by (simp add: HasPrefix_def)

text \<open>
  Did:web URL.  A did:web of a host and path segments without escapes maps to the
  document under the path, or under \<^verbatim>\<open>.well-known\<close> when there is no path.
\<close>

theorem did_web_url:
  assumes "host \<noteq> ''''" "\<forall>p \<in> set (host # segs). CHR '':'' \<notin> set p \<and> CHR ''%'' \<notin> set p"
  shows "didWebToURL (''did:web:'' @ Join (host # segs) '':'') =
    Ok (''https://'' @ host @
        (if segs = [] then ''/.well-known/did.json'' else ''/'' @ Join segs ''/'' @ ''/did.json''))"
proof -
  have split: "Split (Join (host # segs) '':'') CHR '':'' = host # segs"
    using assms(2) by (intro Split_Join) auto
  have "Join (host # segs) '':'' \<noteq> []" using assms(1) by (cases segs) auto
  moreover have "TrimPrefix (''did:web:'' @ t) ''did:web:'' = t" for t by (rule TrimPrefix_append)
  ultimately show ?thesis
    using assms split unescape_parts_plain [of segs "[]"]
    by (simp add: didWebToURL_def Let_def index_def PathUnescape_plain)
qed

theorem did_web_url_witness:
  "didWebToURL ''did:web:example.com:agents:alice'' = Ok ''https://example.com/agents/alice/did.json'' \<and>
   didWebToURL ''did:web:example.com'' = Ok ''https://example.com/.well-known/did.json''"
  using did_web_url [of "''example.com''" "[''agents'', ''alice'']"] did_web_url [of "''example.com''" "[]"]
  by simp

section \<open>Endpoints\<close>

definition candidates :: "didDocument \<Rightarrow> (serviceEndpoint \<times> string) list" where
  "candidates doc =
     [(ep, endpoint). svc \<leftarrow> dd_Service doc, sv_Type svc = ''AIREv1'', ep \<leftarrow> sv_ServiceEndpoint svc,
                      endpoint \<leftarrow> (case parseAIREURI (se_URI ep) of Ok e \<Rightarrow> [e] | _ \<Rightarrow> [])]"

definition address_of :: "string \<Rightarrow> serviceEndpoint \<times> string \<Rightarrow> Address" where
  "address_of defaultAgentID = (\<lambda>(ep, endpoint).
     \<lparr>a_DID = '''', a_Endpoint = endpoint,
      a_AgentID = (if se_AgentID ep = '''' then defaultAgentID else se_AgentID ep), a_Accept = se_Accept ep\<rparr>)"

lemma parseAIREURI_no_panic: "parseAIREURI s \<noteq> Panic"
  by (auto simp: parseAIREURI_def obind_eq_Panic_iff url_Parse_no_panic)

abbreviation (input) head_opt :: "'a list \<Rightarrow> 'a option" where
  "head_opt xs \<equiv> (case xs of [] \<Rightarrow> None | x # _ \<Rightarrow> Some x)"

lemma pick_endpoint_head:
  "pick_endpoint eps d =
   map_option (address_of d)
     (head_opt [(ep, endpoint). ep \<leftarrow> eps, endpoint \<leftarrow> (case parseAIREURI (se_URI ep) of Ok e \<Rightarrow> [e] | _ \<Rightarrow> [])])"
  by (induction eps) (auto simp: address_of_def split: outcome.splits)

lemma head_opt_append: "head_opt (xs @ ys) = (case head_opt xs of None \<Rightarrow> head_opt ys | Some x \<Rightarrow> Some x)"
  by (cases xs) auto

lemma pick_service_head:
  "pick_service svcs d =
   map_option (address_of d)
     (head_opt [(ep, endpoint). svc \<leftarrow> svcs, sv_Type svc = ''AIREv1'', ep \<leftarrow> sv_ServiceEndpoint svc,
                      endpoint \<leftarrow> (case parseAIREURI (se_URI ep) of Ok e \<Rightarrow> [e] | _ \<Rightarrow> [])])"
  by (induction svcs) (auto simp: pick_endpoint_head head_opt_append split: option.splits list.splits)

lemma pick_service_candidates:
  "pick_service (dd_Service doc) d = map_option (address_of d) (head_opt (candidates doc))"
  by (simp only: pick_service_head candidates_def)

text \<open>
  Choice of endpoint.  The address picked from a document is that of the first
  endpoint, in document order, of an AIREv1 service whose URI parses; entries of other
  types and endpoints that do not parse are skipped, and there is an error exactly when
  nothing is left.
\<close>

theorem pick_first_candidate:
  "pickAIREv1 doc defaultAgentID =
   (case candidates doc of [] \<Rightarrow> Err ErrNoAIREv1Service | c # _ \<Rightarrow> Ok (address_of defaultAgentID c))"
  by (cases "candidates doc") (simp_all add: pickAIREv1_def pick_service_candidates)

subsection \<open>Endpoint URIs\<close>

definition authority_char :: "char \<Rightarrow> bool" where
  "authority_char c \<longleftrightarrow> url_alnum c \<or> c \<in> set ''-.:''"

definition plain_host :: "string \<Rightarrow> bool" where
  "plain_host h \<longleftrightarrow> h \<noteq> [] \<and> list_all (\<lambda>c. url_alnum c \<or> c \<in> set ''-.'') h"

definition digit_string :: "string \<Rightarrow> bool" where
  "digit_string p \<longleftrightarrow> list_all (\<lambda>c. 48 \<le> char_code c \<and> char_code c \<le> 57) p"

lemma authority_char_not:
  "authority_char c \<Longrightarrow> c \<notin> set ''#?/@%[''"
  "authority_char c \<Longrightarrow> 32 < char_code c \<and> char_code c < 127"
  by (auto simp: authority_char_def url_alnum_def)

lemma authority_string_not:
  assumes "list_all authority_char s"
  shows "CHR ''#'' \<notin> set s" "CHR ''?'' \<notin> set s" "CHR ''/'' \<notin> set s" "CHR ''@'' \<notin> set s" "\<not> ContainsCTLByte s"
  using assms authority_char_not by (fastforce simp: list_all_iff ContainsCTLByte_def)+

lemma unescape_authority: "list_all authority_char s \<Longrightarrow> unescape s encodeHost = Ok s"
proof (induction s)
  case (Cons c s)
  then have "c \<noteq> CHR ''%''" "\<not> host_shouldEscape c"
    using authority_char_not(1) by (auto simp: authority_char_def host_shouldEscape_def)
  then show ?case using Cons by simp
qed simp

lemma HasPrefix_Cons: "HasPrefix (c # s) (d # p) \<longleftrightarrow> c = d \<and> HasPrefix s p"
  by (auto simp: HasPrefix_def)

lemma HasPrefix_Nil [simp]: "HasPrefix s []"
  by (simp add: HasPrefix_def)

lemma url_parse_authority:
  assumes "list_all authority_char s"
  shows "url_Parse (''aire://'' @ s) = on_err (Wrap ''parse'') (obind (parseHost s) (\<lambda>h. Ok \<lparr>u_Scheme = ''aire'', u_Host = h\<rparr>))"
proof -
  note no = authority_string_not [OF assms]
  have cut: "Cut (''aire://'' @ s) CHR ''#'' = (''aire://'' @ s, '''')"
    using no(1) by (intro Cut_absent) auto
  have ctl: "\<not> ContainsCTLByte (''aire://'' @ s)" using no(5) by (auto simp: ContainsCTLByte_def)
  have q: "Cut (''//'' @ s) CHR ''?'' = (''//'' @ s, '''')" using no(2) by (intro Cut_absent) auto
  have scheme: "getScheme (''aire://'' @ s) = Ok (''aire'', ''//'' @ s)" by (simp add: getScheme_def)
  have slash: "IndexByte s CHR ''/'' = None" using no(3) by (simp add: IndexByte_None_iff)
  have at: "LastIndexByte s CHR ''@'' = None" using no(4) by (simp add: LastIndexByte_def IndexByte_None_iff)
  have lower: "map to_lower ''aire'' = ''aire''" by (simp add: to_lower_def)
  have "url_parse (''aire://'' @ s) = obind (parseHost s) (\<lambda>h. Ok \<lparr>u_Scheme = ''aire'', u_Host = h\<rparr>)"
    using ctl q scheme slash at lower
    by (simp add: url_parse_def Let_def parseAuthority_def HasPrefix_Cons)
  then show ?thesis
    using cut by (cases "parseHost s") (simp_all add: url_Parse_def)
qed

lemma plain_host_authority: "plain_host h \<Longrightarrow> list_all authority_char h"
  by (auto simp: plain_host_def authority_char_def list_all_iff)

lemma plain_host_no_colon: "plain_host h \<Longrightarrow> CHR '':'' \<notin> set h"
  by (auto simp: plain_host_def list_all_iff url_alnum_def)

lemma plain_host_no_bracket: "plain_host h \<Longrightarrow> \<not> HasPrefix (h @ t) ''[''"
  using authority_char_not(1) plain_host_authority [of h] by (cases h) (auto simp: plain_host_def HasPrefix_Cons)

lemma digit_string_authority: "digit_string p \<Longrightarrow> list_all authority_char p"
  by (auto simp: digit_string_def authority_char_def url_alnum_def list_all_iff)

lemma digit_string_no_colon: "digit_string p \<Longrightarrow> CHR '':'' \<notin> set p"
  by (auto simp: digit_string_def list_all_iff)

lemma LastIndexByte_append: "c \<notin> set t \<Longrightarrow> LastIndexByte (s @ c # t) c = Some (length s)"
  by (simp add: LastIndexByte_def IndexByte_append)

lemma parseAIREURI_no_port:
  assumes "plain_host h" shows "parseAIREURI (''aire://'' @ h) = Ok (h @ '':4433'')"
proof -
  have c: "LastIndexByte h CHR '':'' = None"
    using plain_host_no_colon [OF assms] by (simp add: LastIndexByte_def IndexByte_None_iff)
  then have "parseHost h = Ok h"
    using plain_host_no_bracket [OF assms, of "[]"] unescape_authority [OF plain_host_authority [OF assms]]
    by (simp add: parseHost_def)
  then show ?thesis
    using url_parse_authority [OF plain_host_authority [OF assms]] c assms
    by (simp add: parseAIREURI_def URL_Port_def plain_host_def)
qed

lemma parseAIREURI_port:
  assumes "plain_host h" "digit_string p"
  shows "parseAIREURI (''aire://'' @ h @ '':'' @ p) = Ok (h @ '':'' @ p @ (if p = '''' then '':4433'' else ''''))"
proof -
  have a: "list_all authority_char (h @ '':'' @ p)"
    using plain_host_authority [OF assms(1)] digit_string_authority [OF assms(2)]
    by (simp add: authority_char_def [of "CHR '':''"])
  have c: "LastIndexByte (h @ '':'' @ p) CHR '':'' = Some (length h)"
    using LastIndexByte_append [OF digit_string_no_colon [OF assms(2)], of h] by simp
  have v: "validOptionalPort ('':'' @ p)" using assms(2) by (simp add: validOptionalPort_def digit_string_def)
  have "parseHost (h @ '':'' @ p) = Ok (h @ '':'' @ p)"
    using plain_host_no_bracket [OF assms(1), of "'':'' @ p"] unescape_authority [OF a] c v
    by (simp add: parseHost_def)
  then show ?thesis
    using url_parse_authority [OF a] c v by (simp add: parseAIREURI_def URL_Port_def)
qed

text \<open>
  Endpoint of a URI.  For a plain host the dial target of \<^verbatim>\<open>aire://host\<close> is the host with
  the default port 4433, and an explicit port is kept as it is.
\<close>

theorem endpoint_default_port:
  assumes "plain_host h" "digit_string p" "p \<noteq> ''''"
  shows "parseAIREURI (''aire://'' @ h) = Ok (h @ '':4433'') \<and>
         parseAIREURI (''aire://'' @ h @ '':'' @ p) = Ok (h @ '':'' @ p)"
  using parseAIREURI_no_port [OF assms(1)] parseAIREURI_port [OF assms(1,2)] assms(3) by simp

theorem endpoint_default_port_witness:
  "parseAIREURI ''aire://example.com'' = Ok ''example.com:4433'' \<and>
   parseAIREURI ''aire://example.com:9000'' = Ok ''example.com:9000''"
proof -
  have h: "plain_host ''example.com''" "digit_string ''9000''"
    by (simp_all add: plain_host_def url_alnum_def digit_string_def)
  show ?thesis using endpoint_default_port [OF h] by simp
qed

text \<open>
  Empty port.  A URI with a colon and no port digits after the host gets the default
  port appended behind that colon, which gives a target with two colons that no dialer
  accepts.
\<close>

theorem endpoint_empty_port:
  assumes "plain_host h"
  shows "parseAIREURI (''aire://'' @ h @ '':'') = Ok (h @ ''::4433'')"
  using parseAIREURI_port [OF assms, of "''''"] by (simp add: digit_string_def)

theorem endpoint_empty_port_witness:
  "parseAIREURI ''aire://a.b:'' = Ok ''a.b::4433''"
proof -
  have h: "plain_host ''a.b''" by (simp add: plain_host_def url_alnum_def)
  show ?thesis using endpoint_empty_port [OF h] by simp
qed

section \<open>Resolution\<close>

lemma pickAIREv1_no_did: "pickAIREv1 doc d = Ok addr \<Longrightarrow> a_DID addr = ''''"
  by (auto simp: pickAIREv1_def pick_service_head address_of_def split: option.splits)

lemma resolveDID_Ok_iff:
  "resolveDID net r did d = Ok (addr, doc) \<longleftrightarrow>
   HasPrefix did ''did:web:'' \<and> a_DID addr = did \<and>
   (\<exists>docURL. didWebToURL did = Ok docURL \<and> fetchDIDDocument net r docURL = Ok doc) \<and>
   pickAIREv1 doc d = Ok (addr\<lparr>a_DID := ''''\<rparr>)"
  (is "?l \<longleftrightarrow> ?r")
proof
  assume ?l
  then show ?r
    by (auto simp: resolveDID_def resolveDIDWeb_def obind_eq_Ok_iff pickAIREv1_no_did [symmetric] split: if_splits)
next
  assume ?r
  then show ?l by (auto simp: resolveDID_def resolveDIDWeb_def)
qed

text \<open>
  C19 (verified handles).  A handle resolves to an address exactly when the DID published
  for it is a did:web whose document, as fetched, names the handle in \<^verbatim>\<open>alsoKnownAs\<close> and
  offers that address for AIREv1; no other address is ever returned.
\<close>

theorem handle_resolution_verified:
  assumes "\<not> HasPrefix ref ''did:''"
  shows "Resolver_Resolve net r ref = Ok addr \<longleftrightarrow>
   (\<exists>local domain docURL doc.
      parseHandle ref = Ok (local, domain) \<and>
      resolveHandle net r local domain = Ok (a_DID addr) \<and>
      HasPrefix (a_DID addr) ''did:web:'' \<and> didWebToURL (a_DID addr) = Ok docURL \<and>
      fetchDIDDocument net r docURL = Ok doc \<and>
      ''aire://'' @ local @ ''@'' @ domain \<in> set (dd_AlsoKnownAs doc) \<and>
      pickAIREv1 doc local = Ok (addr\<lparr>a_DID := ''''\<rparr>))"
proof -
  have "Resolver_Resolve net r ref = Ok addr \<longleftrightarrow>
     (\<exists>local domain did doc. parseHandle ref = Ok (local, domain) \<and> resolveHandle net r local domain = Ok did \<and>
        resolveDID net r did local = Ok (addr, doc) \<and>
        ''aire://'' @ local @ ''@'' @ domain \<in> set (dd_AlsoKnownAs doc))"
    (is "_ \<longleftrightarrow> ?r")
  proof
    assume "Resolver_Resolve net r ref = Ok addr"
    then show ?r
      using assms by (auto simp: Resolver_Resolve_def verifyAlsoKnownAs_def obind_eq_Ok_iff Let_def split: option.splits if_splits)
  next
    assume ?r
    then show "Resolver_Resolve net r ref = Ok addr"
      using assms by (elim exE conjE) (simp add: Resolver_Resolve_def verifyAlsoKnownAs_def Let_def)
  qed
  then show ?thesis unfolding resolveDID_Ok_iff by blast
qed

theorem handle_resolution_verified_witness:
  "\<exists>net r. Resolver_Resolve net r ''@x@b.c'' =
     Ok \<lparr>a_DID = ''did:web:b.c'', a_Endpoint = ''b.c:4433'', a_AgentID = ''x'', a_Accept = []\<rparr>"
proof -
  define doc where "doc = \<lparr>dd_ID = ''did:web:b.c'', dd_AlsoKnownAs = [''aire://x@b.c''],
    dd_Service = [\<lparr>sv_ID = ''s'', sv_Type = ''AIREv1'',
      sv_ServiceEndpoint = [\<lparr>se_URI = ''aire://b.c'', se_Accept = [], se_AgentID = ''''\<rparr>]\<rparr>],
    dd_VerificationMethod = []\<rparr>"
  define net where "net = \<lparr>NewRequest = (\<lambda>_. None),
    DefaultClient = (\<lambda>_. Ok \<lparr>StatusCode = 200, Body = [], Body_error = None\<rparr>),
    DefaultLookupTXT = (\<lambda>_. Ok [''did=did:web:b.c'']), Unmarshal = (\<lambda>_. Ok doc)\<rparr>"
  define r where "r = \<lparr>r_HTTPClient = None, r_LookupTXT = None\<rparr>"
  let ?addr = "\<lparr>a_DID = ''did:web:b.c'', a_Endpoint = ''b.c:4433'', a_AgentID = ''x'', a_Accept = []\<rparr>"
  have 1: "parseHandle ''@x@b.c'' = Ok (''x'', ''b.c'')" by (simp add: parseHandle_Ok_iff TrimPrefix_at)
  have 2: "resolveHandle net r ''x'' ''b.c'' = Ok (a_DID ?addr)"
    by (simp add: resolveHandle_def resolveHandleViaTXT_def lookupTXT_def net_def r_def index_def
        parseTXTDIDValue_def HasPrefix_def TrimPrefix_def)
  have 3: "didWebToURL (a_DID ?addr) = Ok ''https://b.c/.well-known/did.json''"
    by (simp add: didWebToURL_def HasPrefix_def TrimPrefix_def index_def PathUnescape_plain)
  have 4: "fetchDIDDocument net r u = Ok doc" for u
    by (simp add: fetchDIDDocument_def httpClient_def ReadAll_def net_def r_def)
  have "plain_host ''b.c''" by (simp add: plain_host_def url_alnum_def)
  then have 5: "pickAIREv1 doc ''x'' = Ok (?addr\<lparr>a_DID := ''''\<rparr>)"
    using parseAIREURI_no_port [of "''b.c''"] by (simp add: pickAIREv1_def doc_def)
  have "\<not> HasPrefix ''@x@b.c'' ''did:''" "HasPrefix (a_DID ?addr) ''did:web:''" by (simp_all add: HasPrefix_def)
  moreover have "''aire://'' @ ''x'' @ ''@'' @ ''b.c'' \<in> set (dd_AlsoKnownAs doc)" by (simp add: doc_def)
  ultimately show ?thesis
    using handle_resolution_verified [of "''@x@b.c''" net r ?addr] 1 2 3 4 5 by blast
qed

end
