(* ===== verification/Verifier.thy ===== *)
theory Verifier imports Signature DIDKey Addressing begin

text \<open>
  The verifier of \<^verbatim>\<open>identity.go\<close>: key resolution, the timestamp window and the replay cache.

  A \<^verbatim>\<open>time.Time\<close> is its distance from the Unix epoch in nanoseconds, an integer; a
  \<^verbatim>\<open>time.Duration\<close> is the 64-bit word of the Go \<^verbatim>\<open>int64\<close>, read with \<open>sint\<close>.  The value that
  \<^verbatim>\<open>v.Clock()\<close> returns is an argument of the call.  A verifier is one built by \<^verbatim>\<open>NewVerifier\<close>,
  with its cache allocated.  The Ed25519 check itself is an argument \<open>ed\<close>.  A nonce, a \<^verbatim>\<open>[16]byte\<close>
  in the code, is a byte list of which \<open>SignatureBlock_wf\<close> fixes the length.

  Apart from its reading of the clock, everything before and after the mutex of \<^verbatim>\<open>Verify\<close> is
  pure.  \<open>verify_run\<close> is a run of calls in the order of their critical sections, each with its
  reading; \<open>verify_step\<close> interleaves concurrent calls, which read the clock before they take
  the mutex.
\<close>

section \<open>Time\<close>

text \<open>\<^verbatim>\<open>Time.Sub\<close> saturates at the largest and smallest duration.\<close>

definition time_Sub :: "int \<Rightarrow> int \<Rightarrow> u64" where
  "time_Sub t u =
     (if t - u < - (2 ^ 63) then word_of_int (- (2 ^ 63))
      else if t - u \<ge> 2 ^ 63 then word_of_int (2 ^ 63 - 1)
      else word_of_int (t - u))"

definition time_Add :: "int \<Rightarrow> u64 \<Rightarrow> int" where
  "time_Add t d = t + sint d"

definition UnixMilli_Time :: "u64 \<Rightarrow> int" where
  "UnixMilli_Time ms = sint ms * 1000000"

definition Time_UnixMilli :: "int \<Rightarrow> u64" where
  "Time_UnixMilli t = word_of_int (t div 1000000)"

definition ReplayWindow :: u64 where
  "ReplayWindow = 300 * 1000000000"

text \<open>Error codes of the identity layer.\<close>

definition ErrCodeBadSignature :: u64 where "ErrCodeBadSignature = 0x05"

definition ErrCodeStaleTimestamp :: u64 where "ErrCodeStaleTimestamp = 0x06"

definition ErrCodeReplayedNonce :: u64 where "ErrCodeReplayedNonce = 0x07"

definition ErrCodeUnresolvableDID :: u64 where "ErrCodeUnresolvableDID = 0x08"

definition ErrCodeKeyMismatch :: u64 where "ErrCodeKeyMismatch = 0x09"

section \<open>The verifier\<close>

type_synonym nonce_cache = "bytes \<rightharpoonup> u64"

record Verifier =
  v_Resolver :: "Resolver option"
  v_Window :: u64
  v_cache :: "string \<rightharpoonup> nonce_cache"

definition NewVerifier :: Verifier where
  "NewVerifier = \<lparr>v_Resolver = None, v_Window = ReplayWindow, v_cache = Map.empty\<rparr>"

text \<open>\<^verbatim>\<open>ed25519.Verify\<close> panics on a key of the wrong size.\<close>

definition VerifyEd25519 :: "(bytes \<Rightarrow> bytes \<Rightarrow> bytes \<Rightarrow> bool) \<Rightarrow> bytes \<Rightarrow> bytes \<Rightarrow> bytes \<Rightarrow> bool outcome" where
  "VerifyEd25519 ed pub msg sig = (if length pub \<noteq> PublicKeySize then Panic else Ok (ed pub msg sig))"

fun find_method :: "verificationMethod list \<Rightarrow> string \<Rightarrow> bytes outcome" where
  "find_method [] want = Err (Errorf ''verification method not found in document'')"
| "find_method (vm # vms) want =
     (if vm_ID vm = want \<and> vm_Type vm = ''Ed25519VerificationKey2020''
      then decodeMultibaseEd25519 (vm_PublicKeyMultibase vm)
      else find_method vms want)"

definition ResolveKey :: "network \<Rightarrow> Verifier \<Rightarrow> string \<Rightarrow> bytes outcome" where
  "ResolveKey net v vmid =
     (let (did, fragment) = Cut vmid CHR ''#'' in
      if HasPrefix did ''did:key:'' then ParseDIDKey did
      else if HasPrefix did ''did:web:'' then
        (if fragment = '''' then Err (Errorf ''did:web VMID missing fragment'')
         else case v_Resolver v of
           None \<Rightarrow> Err (Errorf ''did:web resolution requires a Resolver'')
         | Some r \<Rightarrow>
             obind (didWebToURL did) (\<lambda>docURL.
             obind (fetchDIDDocument net r docURL) (\<lambda>doc.
             let want = did @ ''#'' @ fragment in
             find_method (dd_VerificationMethod doc) want)))
      else Err (Errorf ''unsupported DID method''))"

text \<open>The timestamp test: the skew, its sign removed as \<^verbatim>\<open>int64\<close> negation does it, and the window.\<close>

definition skew_of :: "int \<Rightarrow> u64 \<Rightarrow> u64" where
  "skew_of now ts =
     (let sigTime = UnixMilli_Time ts;
          skew = time_Sub now sigTime
      in if sint skew < 0 then - skew else skew)"

definition evict :: "u64 \<Rightarrow> nonce_cache \<Rightarrow> nonce_cache" where
  "evict cutoff nonces = (\<lambda>n. case nonces n of
       Some ts \<Rightarrow> if sint ts < sint cutoff then None else Some ts
     | None \<Rightarrow> None)"

definition Verify ::
  "network \<Rightarrow> (bytes \<Rightarrow> bytes \<Rightarrow> bytes \<Rightarrow> bool) \<Rightarrow> int \<Rightarrow> Verifier \<Rightarrow> SignatureBlock \<Rightarrow> bytes \<Rightarrow> unit outcome \<times> Verifier" where
  "Verify net ed now v block signedMessage =
     (if sb_Algorithm block \<noteq> SigAlgEd25519 then (Err (Wrap ''unknown algorithm'' ErrBadSignature), v)
      else
        let skew = skew_of now (sb_TimestampMS block) in
        if sint skew > sint (v_Window v) then (Err (Wrap ''skew'' ErrStaleTimestamp), v)
        else
          let did = fst (Cut (sb_VMID block) CHR ''#'') in
          if did = '''' then (Err (Wrap ''VMID missing DID portion'' ErrUnresolvableDID), v)
          else
            let nonces = (case v_cache v did of None \<Rightarrow> Map.empty | Some m \<Rightarrow> m);
                v = v\<lparr>v_cache := (v_cache v)(did \<mapsto> nonces)\<rparr>
            in
            if nonces (sb_Nonce block) \<noteq> None then (Err (Wrap ''did'' ErrReplayedNonce), v)
            else
              let cutoff = Time_UnixMilli (time_Add now (- v_Window v));
                  nonces = (evict cutoff nonces)(sb_Nonce block \<mapsto> sb_TimestampMS block);
                  v = v\<lparr>v_cache := (v_cache v)(did \<mapsto> nonces)\<rparr>
              in
              (obind (on_err (\<lambda>_. Wrap ''resolve'' ErrUnresolvableDID) (ResolveKey net v (sb_VMID block))) (\<lambda>pub.
               obind (VerifyEd25519 ed pub signedMessage (sb_Signature block)) (\<lambda>good.
               if \<not> good then Err (Wrap ''did'' ErrBadSignature) else Ok ())), v))"

text \<open>A run of calls on one verifier, in the order of their critical sections.\<close>

type_synonym call = "int \<times> SignatureBlock \<times> bytes"

fun verify_run ::
  "network \<Rightarrow> (bytes \<Rightarrow> bytes \<Rightarrow> bytes \<Rightarrow> bool) \<Rightarrow> Verifier \<Rightarrow> call list \<Rightarrow> unit outcome list \<times> Verifier" where
  "verify_run net ed v [] = ([], v)"
| "verify_run net ed v ((now, block, msg) # cs) =
     (let (res, v') = Verify net ed now v block msg;
          (rs, v'') = verify_run net ed v' cs
      in (res # rs, v''))"

text \<open>
  Concurrent calls on one verifier: each reads the clock, and later runs its critical section
  and returns; the clock of the process does not go back.  The log is a ghost: the calls with
  their readings and results, in the order of the critical sections.
\<close>

datatype vpc = V_start | V_read int | V_done "unit outcome"

record vcall =
  vc_block :: SignatureBlock
  vc_msg :: bytes
  vc_pc :: vpc

record vstate =
  vs_clock :: int
  vs_verifier :: Verifier
  vs_calls :: "vcall list"
  vs_log :: "(call \<times> unit outcome) list"

definition verify_start :: "Verifier \<Rightarrow> int \<Rightarrow> (SignatureBlock \<times> bytes) list \<Rightarrow> vstate" where
  "verify_start v t bs = \<lparr>vs_clock = t, vs_verifier = v,
     vs_calls = map (\<lambda>(block, msg). \<lparr>vc_block = block, vc_msg = msg, vc_pc = V_start\<rparr>) bs, vs_log = []\<rparr>"

inductive verify_step ::
  "network \<Rightarrow> (bytes \<Rightarrow> bytes \<Rightarrow> bytes \<Rightarrow> bool) \<Rightarrow> vstate \<Rightarrow> vstate \<Rightarrow> bool" for net ed where
  tick: "vs_clock s \<le> t \<Longrightarrow> verify_step net ed s (s\<lparr>vs_clock := t\<rparr>)"
| read_clock: "i < length (vs_calls s) \<Longrightarrow> vs_calls s ! i = c \<Longrightarrow> vc_pc c = V_start \<Longrightarrow>
    verify_step net ed s (s\<lparr>vs_calls := (vs_calls s)[i := c\<lparr>vc_pc := V_read (vs_clock s)\<rparr>]\<rparr>)"
| critical: "i < length (vs_calls s) \<Longrightarrow> vs_calls s ! i = c \<Longrightarrow> vc_pc c = V_read now \<Longrightarrow>
    Verify net ed now (vs_verifier s) (vc_block c) (vc_msg c) = (res, v) \<Longrightarrow>
    verify_step net ed s (s\<lparr>vs_verifier := v, vs_calls := (vs_calls s)[i := c\<lparr>vc_pc := V_done res\<rparr>],
      vs_log := vs_log s @ [((now, vc_block c, vc_msg c), res)]\<rparr>)"

section \<open>Reading the checks\<close>

definition signing_did :: "SignatureBlock \<Rightarrow> string" where
  "signing_did block = fst (Cut (sb_VMID block) CHR ''#'')"

definition seen_at :: "Verifier \<Rightarrow> string \<Rightarrow> bytes \<Rightarrow> u64 option" where
  "seen_at v did n = (case v_cache v did of None \<Rightarrow> None | Some m \<Rightarrow> m n)"

definition in_window :: "Verifier \<Rightarrow> int \<Rightarrow> u64 \<Rightarrow> bool" where
  "in_window v now ts \<longleftrightarrow> sint (skew_of now ts) \<le> sint (v_Window v)"

definition cutoff_of :: "Verifier \<Rightarrow> int \<Rightarrow> u64" where
  "cutoff_of v now = Time_UnixMilli (time_Add now (- v_Window v))"

text \<open>The call gets as far as recording its nonce.\<close>

definition records :: "Verifier \<Rightarrow> int \<Rightarrow> SignatureBlock \<Rightarrow> bool" where
  "records v now block \<longleftrightarrow> sb_Algorithm block = SigAlgEd25519 \<and> in_window v now (sb_TimestampMS block) \<and>
     signing_did block \<noteq> '''' \<and> seen_at v (signing_did block) (sb_Nonce block) = None"

lemma ResolveKey_window_cong:
  "v_Resolver v = v_Resolver v' \<Longrightarrow> ResolveKey net v vmid = ResolveKey net v' vmid"
  by (cases "Cut vmid CHR ''#''") (simp add: ResolveKey_def)

lemma Verify_Resolver [simp]: "v_Resolver (snd (Verify net ed now v block msg)) = v_Resolver v"
  by (simp add: Verify_def Let_def)

lemma Verify_Window [simp]: "v_Window (snd (Verify net ed now v block msg)) = v_Window v"
  by (simp add: Verify_def Let_def)

lemma Verify_seen:
  "seen_at (snd (Verify net ed now v block msg)) did n =
     (if records v now block \<and> did = signing_did block then
        (if n = sb_Nonce block then Some (sb_TimestampMS block)
         else case seen_at v did n of
           Some ts \<Rightarrow> if sint ts < sint (cutoff_of v now) then None else Some ts
         | None \<Rightarrow> None)
      else seen_at v did n)"
  by (auto simp: Verify_def records_def Let_def seen_at_def in_window_def signing_did_def cutoff_of_def evict_def
      not_less split: option.splits)

lemma Verify_result:
  "fst (Verify net ed now v block msg) =
     (if sb_Algorithm block \<noteq> SigAlgEd25519 then Err (Wrap ''unknown algorithm'' ErrBadSignature)
      else if \<not> in_window v now (sb_TimestampMS block) then Err (Wrap ''skew'' ErrStaleTimestamp)
      else if signing_did block = '''' then Err (Wrap ''VMID missing DID portion'' ErrUnresolvableDID)
      else if seen_at v (signing_did block) (sb_Nonce block) \<noteq> None then Err (Wrap ''did'' ErrReplayedNonce)
      else
        obind (on_err (\<lambda>_. Wrap ''resolve'' ErrUnresolvableDID) (ResolveKey net v (sb_VMID block))) (\<lambda>pub.
        obind (VerifyEd25519 ed pub msg (sb_Signature block)) (\<lambda>good.
        if \<not> good then Err (Wrap ''did'' ErrBadSignature) else Ok ())))"
proof -
  have r: "ResolveKey net (v\<lparr>v_cache := c\<rparr>) x = ResolveKey net v x" for c x
    by (rule ResolveKey_window_cong) simp
  show ?thesis
    by (auto simp: Verify_def Let_def seen_at_def in_window_def signing_did_def r not_less split: option.splits)
qed

section \<open>The window\<close>

lemma sint_word_of_int64: "- (2 ^ 63) \<le> x \<Longrightarrow> x < 2 ^ 63 \<Longrightarrow> sint (word_of_int x :: u64) = x"
  by (simp add: signed_of_int signed_take_bit_int_eq_self)

lemma sint_bounds64: "- (2 ^ 63) \<le> sint (w :: u64)" "sint (w :: u64) < 2 ^ 63"
  using sint_ge [of w] sint_less [of w] by simp_all

lemma sint_uminus64:
  assumes "sint (w :: u64) \<noteq> - (2 ^ 63)" shows "sint (- w) = - sint w"
proof -
  have "- w = word_of_int (- sint w)" by simp
  moreover have "- (2 ^ 63) < sint w" using assms sint_bounds64(1) [of w] by simp
  ultimately show ?thesis using sint_bounds64 [of w] sint_word_of_int64 [of "- sint w"] by simp
qed

text \<open>The age of a timestamp in nanoseconds, before any saturation; negative in the future.\<close>

definition age :: "int \<Rightarrow> u64 \<Rightarrow> int" where
  "age now ts = now - sint ts * 1000000"

lemma sint_skew_of:
  "sint (skew_of now ts) =
     (if age now ts \<le> - (2 ^ 63) then - (2 ^ 63)
      else if age now ts \<ge> 2 ^ 63 then 2 ^ 63 - 1
      else \<bar>age now ts\<bar>)"
proof -
  let ?d = "age now ts"
  consider "?d \<le> - (2 ^ 63)" | "?d \<ge> 2 ^ 63" | "- (2 ^ 63) < ?d" "?d < 2 ^ 63" by linarith
  then show ?thesis
  proof cases
    case 1
    then have "time_Sub now (UnixMilli_Time ts) = word_of_int (- (2 ^ 63))"
      by (simp add: time_Sub_def UnixMilli_Time_def age_def)
    then show ?thesis using 1 by (simp add: skew_of_def)
  next
    case 2
    then have "time_Sub now (UnixMilli_Time ts) = word_of_int (2 ^ 63 - 1)"
      by (simp add: time_Sub_def UnixMilli_Time_def age_def)
    then show ?thesis using 2 by (simp add: skew_of_def)
  next
    case 3
    then have t: "time_Sub now (UnixMilli_Time ts) = word_of_int ?d"
      by (simp add: time_Sub_def UnixMilli_Time_def age_def)
    have s: "sint (word_of_int ?d :: u64) = ?d" using 3 by (intro sint_word_of_int64) auto
    then have "sint (- (word_of_int ?d :: u64)) = - ?d" using 3 by (subst sint_uminus64) auto
    with t s 3 show ?thesis by (simp add: skew_of_def Let_def del: wi_hom_neg)
  qed
qed

lemma in_window_iff:
  "in_window v now ts \<longleftrightarrow>
   age now ts \<le> - (2 ^ 63) \<or> min \<bar>age now ts\<bar> (2 ^ 63 - 1) \<le> sint (v_Window v)"
  using sint_bounds64 [of "v_Window v"] by (auto simp: in_window_def sint_skew_of min_def)

lemma in_window_age: "in_window v now ts \<Longrightarrow> sint (v_Window v) < 2 ^ 63 - 1 \<Longrightarrow> age now ts \<le> sint (v_Window v)"
  using sint_bounds64 [of "v_Window v"] by (auto simp: in_window_iff min_def split: if_splits)

text \<open>A clock within \<open>2 ^ 82\<close> nanoseconds (a hundred million years) of the epoch.\<close>

definition clock_ok :: "int \<Rightarrow> bool" where
  "clock_ok now \<longleftrightarrow> \<bar>now\<bar> < 2 ^ 82"

definition window_ok :: "Verifier \<Rightarrow> bool" where
  "window_ok v \<longleftrightarrow> 0 \<le> sint (v_Window v) \<and> sint (v_Window v) < 2 ^ 63 - 1"

lemma sint_cutoff_of:
  assumes "clock_ok now" "window_ok v"
  shows "sint (cutoff_of v now) = (now - sint (v_Window v)) div 1000000"
proof -
  let ?w = "sint (v_Window v)"
  have "sint (- v_Window v) = - ?w" using assms(2) by (intro sint_uminus64) (auto simp: window_ok_def)
  then have "cutoff_of v now = word_of_int ((now - ?w) div 1000000)"
    by (simp add: cutoff_of_def time_Add_def Time_UnixMilli_def)
  moreover have "- (2 ^ 63) \<le> (now - ?w) div 1000000" "(now - ?w) div 1000000 < 2 ^ 63"
    using assms by (auto simp: clock_ok_def window_ok_def)
  ultimately show ?thesis using sint_word_of_int64 by simp
qed

lemma not_evicted:
  assumes "clock_ok now'" "window_ok v" "now' \<le> now" "in_window v now ts"
  shows "\<not> sint ts < sint (cutoff_of v now')"
proof -
  have "age now ts \<le> sint (v_Window v)"
    using assms by (intro in_window_age) (auto simp: window_ok_def)
  then have "now' - sint (v_Window v) \<le> sint ts * 1000000" using assms(3) by (simp add: age_def)
  then have "(now' - sint (v_Window v)) div 1000000 \<le> sint ts * 1000000 div 1000000"
    by (intro zdiv_mono1) auto
  then show ?thesis using sint_cutoff_of [OF assms(1,2)] by simp
qed

section \<open>Runs\<close>

lemma verify_run_append:
  "snd (verify_run net ed v (cs @ ds)) = snd (verify_run net ed (snd (verify_run net ed v cs)) ds)"
  by (induction net ed v cs rule: verify_run.induct) (auto split: prod.splits)

lemma verify_run_results:
  "fst (verify_run net ed v (cs @ ds)) =
     fst (verify_run net ed v cs) @ fst (verify_run net ed (snd (verify_run net ed v cs)) ds)"
  by (induction net ed v cs rule: verify_run.induct) (auto split: prod.splits)

text \<open>Concurrent calls behave as whole calls in the order of their critical sections.\<close>

lemma verify_step_refines_run:
  assumes "(verify_step net ed)\<^sup>*\<^sup>* (verify_start v t bs) s"
  shows "verify_run net ed v (map fst (vs_log s)) = (map snd (vs_log s), vs_verifier s)"
  using assms
proof (induction rule: rtranclp_induct)
  case (step s s')
  from step(2) show ?case
  proof cases
    case (critical i c now res w)
    let ?c = "(now, vc_block c, vc_msg c)"
    have "fst (verify_run net ed v (map fst (vs_log s) @ [?c])) = map snd (vs_log s) @ [res]"
        "snd (verify_run net ed v (map fst (vs_log s) @ [?c])) = w"
      unfolding verify_run_results verify_run_append step(3) using critical(5) by simp_all
    then show ?thesis using critical(1) by (simp add: prod_eq_iff)
  qed (use step(3) in simp_all)
qed (simp add: verify_start_def)

definition state_at ::
  "network \<Rightarrow> (bytes \<Rightarrow> bytes \<Rightarrow> bytes \<Rightarrow> bool) \<Rightarrow> Verifier \<Rightarrow> call list \<Rightarrow> nat \<Rightarrow> Verifier" where
  "state_at net ed v cs j = snd (verify_run net ed v (take j cs))"

lemma state_at_Suc:
  "j < length cs \<Longrightarrow> cs ! j = (now, block, msg) \<Longrightarrow>
   state_at net ed v cs (Suc j) = snd (Verify net ed now (state_at net ed v cs j) block msg)"
  by (simp add: state_at_def take_Suc_conv_app_nth verify_run_append split: prod.splits)

lemma verify_run_nth:
  "j < length cs \<Longrightarrow> cs ! j = (now, block, msg) \<Longrightarrow>
   fst (verify_run net ed v cs) ! j = fst (Verify net ed now (state_at net ed v cs j) block msg)"
proof (induction net ed v cs arbitrary: j rule: verify_run.induct)
  case (2 net ed v now' block' msg' cs)
  show ?case
  proof (cases j)
    case 0
    then show ?thesis using 2(3) by (simp add: state_at_def split: prod.splits)
  next
    case (Suc i)
    then show ?thesis using 2 by (auto simp: state_at_def split: prod.splits)
  qed
qed simp

lemma state_at_Window [simp]: "v_Window (state_at net ed v cs j) = v_Window v"
proof -
  have "v_Window (snd (verify_run net ed v ds)) = v_Window v" for ds
  proof (induction ds arbitrary: v)
    case (Cons c ds)
    then show ?case by (cases c) (simp add: case_prod_beta)
  qed simp
  then show ?thesis by (simp add: state_at_def)
qed

text \<open>While a timestamp is in the window of a later clock, its nonce stays recorded.\<close>

lemma seen_kept:
  assumes "seen_at v did n = Some ts" "clock_ok now'" "window_ok v" "now' \<le> now" "in_window v now ts"
  shows "seen_at (snd (Verify net ed now' v block msg)) did n = Some ts"
proof -
  have "n \<noteq> sb_Nonce block" if "records v now' block" "did = signing_did block"
    using that assms(1) by (auto simp: records_def)
  then show ?thesis using assms(1) not_evicted [OF assms(2-5)] by (auto simp: Verify_seen)
qed

lemma seen_kept_run:
  assumes "seen_at (state_at net ed v cs i) did n = Some ts" "i \<le> j" "j \<le> length cs"
    and "window_ok v" "\<forall>k < j. clock_ok (fst (cs ! k)) \<and> fst (cs ! k) \<le> now" "in_window v now ts"
  shows "seen_at (state_at net ed v cs j) did n = Some ts"
  using assms(2,3,5)
proof (induction j rule: dec_induct)
  case (step j)
  obtain now' block msg where c: "cs ! j = (now', block, msg)" by (cases "cs ! j") auto
  have "seen_at (state_at net ed v cs j) did n = Some ts" using step by simp
  moreover have "clock_ok now'" "now' \<le> now" using step.prems(2) c by (metis fst_conv lessI)+
  moreover have "window_ok (state_at net ed v cs j)" "in_window (state_at net ed v cs j) now ts"
    using assms(4,6) by (simp_all add: window_ok_def in_window_def)
  ultimately show ?case using step.prems(1) state_at_Suc [OF _ c] seen_kept by simp
qed (rule assms(1))

lemma Verify_Ok_records:
  "fst (Verify net ed now v block msg) = Ok () \<Longrightarrow> records v now block"
  by (auto simp: Verify_result records_def split: if_splits)

lemma recorded_seen:
  "records v now block \<Longrightarrow>
   seen_at (snd (Verify net ed now v block msg)) (signing_did block) (sb_Nonce block) = Some (sb_TimestampMS block)"
  by (simp add: Verify_seen)

lemma recorded_then_rejected:
  assumes run: "i < j" "j < length cs" "cs ! i = (ti, bi, mi)" "cs ! j = (tj, bj, mj)"
    and mono: "\<forall>k < j. clock_ok (fst (cs ! k)) \<and> fst (cs ! k) \<le> tj" and "window_ok v"
    and same: "signing_did bj = signing_did bi" "sb_Nonce bj = sb_Nonce bi" "sb_TimestampMS bj = sb_TimestampMS bi"
    and rec: "records (state_at net ed v cs i) ti bi"
  shows "fst (verify_run net ed v cs) ! j \<noteq> Ok ()"
proof
  assume "fst (verify_run net ed v cs) ! j = Ok ()"
  then have acc: "records (state_at net ed v cs j) tj bj"
    using verify_run_nth [OF run(2,4)] Verify_Ok_records by metis
  have i: "i < length cs" "Suc i \<le> j" "j \<le> length cs" using run by auto
  have "seen_at (state_at net ed v cs (Suc i)) (signing_did bi) (sb_Nonce bi) = Some (sb_TimestampMS bi)"
    unfolding state_at_Suc [OF i(1) run(3)] by (rule recorded_seen [OF rec])
  moreover have "in_window v tj (sb_TimestampMS bi)"
    using acc same(3) by (simp add: records_def in_window_def)
  ultimately have "seen_at (state_at net ed v cs j) (signing_did bi) (sb_Nonce bi) = Some (sb_TimestampMS bi)"
    using seen_kept_run [OF _ i(2,3) assms(6) mono] by blast
  then show False using acc same by (simp add: records_def)
qed

text \<open>
  C1 (no replay).  On one verifier whose clock does not go back, once a signature block has
  been accepted no later call accepts a block with the same signing DID, nonce and
  timestamp, however many calls come between and whatever they evict from the cache.
\<close>

theorem no_replay:
  assumes "i < j" "j < length cs" "cs ! i = (ti, bi, mi)" "cs ! j = (tj, bj, mj)"
    and "sorted (map fst cs)" "\<forall>c \<in> set cs. clock_ok (fst c)" "window_ok v"
    and "signing_did bj = signing_did bi" "sb_Nonce bj = sb_Nonce bi" "sb_TimestampMS bj = sb_TimestampMS bi"
    and "fst (verify_run net ed v cs) ! i = Ok ()"
  shows "fst (verify_run net ed v cs) ! j \<noteq> Ok ()"
proof (rule recorded_then_rejected [OF assms(1-4) _ assms(7-10)])
  have "fst (cs ! k) \<le> tj" if "k < j" for k
    using that assms(2,4,5) sorted_nth_mono [of "map fst cs" k j] by simp
  then show "\<forall>k < j. clock_ok (fst (cs ! k)) \<and> fst (cs ! k) \<le> tj"
    using assms(2,6) by (auto dest!: spec bspec [OF _ nth_mem])
  have i: "i < length cs" using assms(1,2) by simp
  show "records (state_at net ed v cs i) ti bi"
    using assms(11) verify_run_nth [OF i assms(3)] Verify_Ok_records by metis
qed

section \<open>Key resolution and acceptance\<close>

lemma ResolveKey_did_key:
  "length pub = 32 \<Longrightarrow> ResolveKey net v (MakeDIDKey pub @ CHR ''#'' # frag) = Ok pub"
proof -
  assume "length pub = 32"
  then have "ParseDIDKey (MakeDIDKey pub) = Ok pub" by (simp add: ParseDIDKey_Ok_iff)
  moreover have "HasPrefix (MakeDIDKey pub) ''did:key:''" by (simp add: MakeDIDKey_def didKeyPrefix_def HasPrefix_Cons)
  ultimately show ?thesis by (simp add: ResolveKey_def Cut_VMID)
qed

lemma find_method_length: "find_method vms want = Ok pub \<Longrightarrow> length pub = 32"
  by (induction vms) (auto simp: decodeMultibase_Ok_iff split: if_splits)

lemma ResolveKey_length: "ResolveKey net v vmid = Ok pub \<Longrightarrow> length pub = 32"
  by (auto simp: ResolveKey_def ParseDIDKey_Ok_iff obind_eq_Ok_iff Let_def
      split: prod.splits if_splits option.splits dest: find_method_length)

lemma Verify_Ok_iff:
  "fst (Verify net ed now v block msg) = Ok () \<longleftrightarrow>
   records v now block \<and> (\<exists>pub. ResolveKey net v (sb_VMID block) = Ok pub \<and> ed pub msg (sb_Signature block))"
  by (auto simp: Verify_result records_def VerifyEd25519_def PublicKeySize_def obind_eq_Ok_iff
      dest: ResolveKey_length split: if_splits)

text \<open>
  The key that a verification method names: for a did:key the one in the identifier, with or
  without a fragment; for a did:web the one of the first Ed25519 method with exactly that id
  in the document the DID resolves to.
\<close>

definition is_method :: "string \<Rightarrow> verificationMethod \<Rightarrow> bool" where
  "is_method vmid m \<longleftrightarrow> vm_ID m = vmid \<and> vm_Type m = ''Ed25519VerificationKey2020''"

definition first_method :: "verificationMethod list \<Rightarrow> string \<Rightarrow> bytes \<Rightarrow> bool" where
  "first_method ms vmid pub \<longleftrightarrow>
     (\<exists>pre m post. ms = pre @ m # post \<and> list_all (\<lambda>x. \<not> is_method vmid x) pre \<and> is_method vmid m \<and>
        vm_PublicKeyMultibase m = encodeMultibaseEd25519 pub)"

definition web_key :: "network \<Rightarrow> Verifier \<Rightarrow> string \<Rightarrow> string \<Rightarrow> bytes \<Rightarrow> bool" where
  "web_key net v did frag pub \<longleftrightarrow> HasPrefix did ''did:web:'' \<and> frag \<noteq> '''' \<and>
     (\<exists>r url doc. v_Resolver v = Some r \<and> didWebToURL did = Ok url \<and> fetchDIDDocument net r url = Ok doc \<and>
        first_method (dd_VerificationMethod doc) (did @ ''#'' @ frag) pub)"

definition published_key :: "network \<Rightarrow> Verifier \<Rightarrow> string \<Rightarrow> bytes \<Rightarrow> bool" where
  "published_key net v vmid pub \<longleftrightarrow> length pub = 32 \<and>
     (vmid = MakeDIDKey pub \<or> (\<exists>frag. vmid = MakeDIDKey pub @ ''#'' @ frag) \<or>
      (\<exists>did frag. vmid = did @ ''#'' @ frag \<and> CHR ''#'' \<notin> set did \<and> web_key net v did frag pub))"

lemma first_method_Nil [simp]: "\<not> first_method [] vmid pub"
  by (simp add: first_method_def)

lemma first_method_Cons [simp]:
  "first_method (m # ms) vmid pub \<longleftrightarrow>
     (if is_method vmid m then vm_PublicKeyMultibase m = encodeMultibaseEd25519 pub else first_method ms vmid pub)"
proof (cases "is_method vmid m")
  case True
  then show ?thesis by (auto simp: first_method_def Cons_eq_append_conv intro!: exI [of _ "[]"])
next
  case False
  have "first_method (m # ms) vmid pub" if "first_method ms vmid pub"
    using that False unfolding first_method_def by (metis append_Cons list.pred_inject(2))
  moreover have "first_method ms vmid pub" if "first_method (m # ms) vmid pub"
  proof -
    from that obtain pre k post where k: "m # ms = pre @ k # post" "list_all (\<lambda>x. \<not> is_method vmid x) pre" "is_method vmid k"
        "vm_PublicKeyMultibase k = encodeMultibaseEd25519 pub" unfolding first_method_def by blast
    then obtain pre' where "pre = m # pre'" using False by (cases pre) auto
    then show ?thesis using k unfolding first_method_def by auto
  qed
  ultimately show ?thesis using False by auto
qed

lemma find_method_Ok_iff: "find_method ms want = Ok pub \<longleftrightarrow> length pub = 32 \<and> first_method ms want pub"
  by (induction ms) (auto simp: is_method_def decodeMultibase_Ok_iff)

lemma Cut_hash_cases:
  obtains "CHR ''#'' \<notin> set vmid" "Cut vmid CHR ''#'' = (vmid, '''')"
  | did frag where "vmid = did @ ''#'' @ frag" "CHR ''#'' \<notin> set did" "Cut vmid CHR ''#'' = (did, frag)"
proof (cases "CHR ''#'' \<in> set vmid")
  case True
  then obtain did frag where "vmid = did @ CHR ''#'' # frag" "CHR ''#'' \<notin> set did" by (metis split_list_first)
  then show ?thesis using that(2) [of did frag] by simp
qed (use that(1) Cut_absent in blast)

lemma MakeDIDKey_prefixes:
  "HasPrefix (MakeDIDKey pub) ''did:key:''" "\<not> HasPrefix (MakeDIDKey pub) ''did:web:''"
  by (simp_all add: MakeDIDKey_def didKeyPrefix_def HasPrefix_Cons)

lemma did_web_not_key: "HasPrefix did ''did:web:'' \<Longrightarrow> \<not> HasPrefix did ''did:key:''"
  by (auto simp: HasPrefix_iff)

lemma hash_split_unique:
  "did @ ''#'' @ frag = did' @ ''#'' @ frag' \<Longrightarrow> CHR ''#'' \<notin> set did \<Longrightarrow> CHR ''#'' \<notin> set did' \<Longrightarrow> did' = did \<and> frag' = frag"
proof -
  assume eq: "did @ ''#'' @ frag = did' @ ''#'' @ frag'" and n: "CHR ''#'' \<notin> set did" "CHR ''#'' \<notin> set did'"
  have "(did, frag) = Cut (did @ ''#'' @ frag) CHR ''#''" using n(1) by simp
  also have "\<dots> = (did', frag')" unfolding eq using n(2) by simp
  finally show ?thesis by simp
qed

lemma ResolveKey_Ok_iff: "ResolveKey net v vmid = Ok pub \<longleftrightarrow> published_key net v vmid pub"
proof (rule Cut_hash_cases [of vmid])
  assume h: "CHR ''#'' \<notin> set vmid" "Cut vmid CHR ''#'' = (vmid, '''')"
  then have "published_key net v vmid pub \<longleftrightarrow> length pub = 32 \<and> vmid = MakeDIDKey pub" by (auto simp: published_key_def)
  then show ?thesis using h(2) MakeDIDKey_prefixes by (auto simp: ResolveKey_def ParseDIDKey_Ok_iff)
next
  fix did frag
  assume h: "vmid = did @ ''#'' @ frag" "CHR ''#'' \<notin> set did" "Cut vmid CHR ''#'' = (did, frag)"
  have key: "vmid = MakeDIDKey pub \<or> (\<exists>frag. vmid = MakeDIDKey pub @ ''#'' @ frag) \<longleftrightarrow> did = MakeDIDKey pub"
  proof -
    have "vmid \<noteq> MakeDIDKey pub" using h(1) hash_notin_MakeDIDKey [of pub] by (metis append_Cons in_set_conv_decomp)
    then show ?thesis using h(1,2) hash_notin_MakeDIDKey [of pub] hash_split_unique [of did frag "MakeDIDKey pub"] by metis
  qed
  have web: "(\<exists>did frag. vmid = did @ ''#'' @ frag \<and> CHR ''#'' \<notin> set did \<and> web_key net v did frag pub) \<longleftrightarrow> web_key net v did frag pub"
    using h(1,2) hash_split_unique [of did frag] by metis
  have "published_key net v vmid pub \<longleftrightarrow> length pub = 32 \<and> (did = MakeDIDKey pub \<or> web_key net v did frag pub)"
    unfolding published_key_def web using key by blast
  also have "\<dots> \<longleftrightarrow> ResolveKey net v vmid = Ok pub"
  proof (cases "HasPrefix did ''did:web:''")
    case True
    then have "did \<noteq> MakeDIDKey pub" "\<not> HasPrefix did ''did:key:''" using MakeDIDKey_prefixes(2) did_web_not_key by blast+
    moreover have "did @ ''#'' @ frag = vmid" using h(1) by (rule sym)
    ultimately have r: "ResolveKey net v vmid =
        (if frag = '''' then Err (Errorf ''did:web VMID missing fragment'')
         else case v_Resolver v of
           None \<Rightarrow> Err (Errorf ''did:web resolution requires a Resolver'')
         | Some r \<Rightarrow> obind (didWebToURL did) (\<lambda>docURL.
             obind (fetchDIDDocument net r docURL) (\<lambda>doc. find_method (dd_VerificationMethod doc) vmid)))"
      using True h(3) by (simp only: ResolveKey_def Let_def case_prod_conv if_False if_True)
    show ?thesis unfolding r web_key_def \<open>did @ ''#'' @ frag = vmid\<close> using True \<open>did \<noteq> MakeDIDKey pub\<close>
      by (cases "v_Resolver v") (auto simp: obind_eq_Ok_iff find_method_Ok_iff)
  next
    case False
    then show ?thesis using h(3) MakeDIDKey_prefixes(1) [of pub]
      by (cases "HasPrefix did ''did:key:''") (auto simp: ResolveKey_def ParseDIDKey_Ok_iff web_key_def)
  qed
  finally show ?thesis by simp
qed

lemma signing_did_takeWhile: "signing_did block = takeWhile (\<lambda>c. c \<noteq> CHR ''#'') (sb_VMID block)"
proof (rule Cut_hash_cases [of "sb_VMID block"])
  assume "CHR ''#'' \<notin> set (sb_VMID block)" "Cut (sb_VMID block) CHR ''#'' = (sb_VMID block, '''')"
  moreover from this(1) have "takeWhile (\<lambda>c. c \<noteq> CHR ''#'') (sb_VMID block) = sb_VMID block"
    by (auto simp: takeWhile_eq_all_conv)
  ultimately show ?thesis by (simp only: signing_did_def fst_conv)
qed (auto simp: signing_did_def takeWhile_append)

lemma published_did: "published_key net v (sb_VMID block) pub \<Longrightarrow> signing_did block \<noteq> ''''"
  unfolding ResolveKey_Ok_iff [symmetric] signing_did_def
proof
  assume k: "ResolveKey net v (sb_VMID block) = Ok pub" and "fst (Cut (sb_VMID block) CHR ''#'') = ''''"
  then obtain frag where "Cut (sb_VMID block) CHR ''#'' = ('''', frag)" by (metis prod.collapse)
  then show False using k by (simp add: ResolveKey_def HasPrefix_def)
qed

lemma didWebToURL_no_panic: "didWebToURL did \<noteq> Panic"
proof -
  have "unescape_parts ps acc \<noteq> Panic" for ps acc
    by (induction ps arbitrary: acc) (auto simp: obind_eq_Panic_iff PathUnescape_def unescape_no_panic)
  then show ?thesis
    using Split_nonempty by (auto simp: didWebToURL_def Let_def obind_eq_Panic_iff index_def PathUnescape_def unescape_no_panic)
qed

lemma find_method_no_panic: "find_method vms want \<noteq> Panic"
  by (induction vms) (auto simp: decodeMultibase_no_panic)

lemma ResolveKey_no_panic:
  assumes "\<And>r url. v_Resolver v = Some r \<Longrightarrow> fetchDIDDocument net r url \<noteq> Panic"
  shows "ResolveKey net v vmid \<noteq> Panic"
  using assms
  by (auto simp: ResolveKey_def ParseDIDKey_no_panic obind_eq_Panic_iff didWebToURL_no_panic find_method_no_panic Let_def
      split: prod.splits option.splits)

text \<open>
  C8 (acceptance).  A call accepts a block exactly when its algorithm is Ed25519; its
  timestamp and the clock are at most one window apart, in either direction, the distance
  being capped at the largest duration, or the timestamp is \<open>2 ^ 63\<close> nanoseconds or more
  ahead; its nonce is not in the cache for the DID before the hash sign of its verification
  method; and the key published for that method, in the did:key itself or under exactly
  that id in the did:web document, verifies the signature over the message.
\<close>

theorem verify_accepts_iff:
  "fst (Verify net ed now v block msg) = Ok () \<longleftrightarrow>
     sb_Algorithm block = SigAlgEd25519 \<and>
     (let d = now - sint (sb_TimestampMS block) * 1000000
      in d \<le> - (2 ^ 63) \<or> min \<bar>d\<bar> (2 ^ 63 - 1) \<le> sint (v_Window v)) \<and>
     (case v_cache v (takeWhile (\<lambda>c. c \<noteq> CHR ''#'') (sb_VMID block)) of
        None \<Rightarrow> True | Some nonces \<Rightarrow> nonces (sb_Nonce block) = None) \<and>
     (\<exists>pub. published_key net v (sb_VMID block) pub \<and> ed pub msg (sb_Signature block))"
proof -
  have "seen_at v (signing_did block) (sb_Nonce block) = None \<longleftrightarrow>
      (case v_cache v (takeWhile (\<lambda>c. c \<noteq> CHR ''#'') (sb_VMID block)) of
         None \<Rightarrow> True | Some nonces \<Rightarrow> nonces (sb_Nonce block) = None)"
    by (simp add: seen_at_def signing_did_takeWhile split: option.splits)
  then show ?thesis
    using published_did by (auto simp: Verify_Ok_iff records_def in_window_iff age_def Let_def ResolveKey_Ok_iff)
qed

text \<open>
  No panic in verification.  When fetching a DID document returns a document or an
  error, verifying any block at any time on any verifier returns; in particular no key of
  the wrong size reaches the signature check.
\<close>

theorem verify_no_panic:
  assumes "\<And>r url. v_Resolver v = Some r \<Longrightarrow> fetchDIDDocument net r url \<noteq> Panic"
  shows "fst (Verify net ed now v block msg) \<noteq> Panic"
  using ResolveKey_no_panic [OF assms]
  by (auto simp: Verify_result VerifyEd25519_def PublicKeySize_def obind_eq_Panic_iff dest: ResolveKey_length)

text \<open>
  Timestamp window.  While the distance between the clock and the timestamp fits a
  duration, the test admits exactly the timestamps at most one window away in either
  direction.
\<close>

theorem window_exact:
  assumes "\<bar>now - sint ts * 1000000\<bar> < 2 ^ 63 - 1"
  shows "in_window v now ts \<longleftrightarrow> \<bar>now - sint ts * 1000000\<bar> \<le> sint (v_Window v)"
  using assms by (auto simp: in_window_iff age_def min_def)

theorem window_exact_witness:
  "in_window NewVerifier 0 (word_of_int (- 300000)) \<and> \<not> in_window NewVerifier 0 300001"
  using window_exact [of 0 "word_of_int (- 300000)" NewVerifier] window_exact [of 0 300001 NewVerifier]
  by (simp add: NewVerifier_def ReplayWindow_def)

text \<open>
  Far future.  A timestamp more than \<open>2 ^ 63\<close> nanoseconds ahead of the clock passes the
  window test whatever the window: the saturated skew is the smallest \<^verbatim>\<open>int64\<close>, which
  negation leaves negative.
\<close>

theorem window_far_future:
  assumes "sint ts * 1000000 - now \<ge> 2 ^ 63"
  shows "in_window v now ts"
  using assms by (simp add: in_window_iff age_def)

theorem window_far_future_witness:
  "in_window NewVerifier 1700000000000000000 (2 ^ 62)"
proof -
  have "sint (word_of_int (2 ^ 62) :: u64) = 2 ^ 62" by (rule sint_word_of_int64) simp_all
  then have "sint (2 ^ 62 :: u64) = 2 ^ 62" by simp
  then show ?thesis by (intro window_far_future) simp
qed

section \<open>Examples and limits\<close>

definition sample_block :: "u64 \<Rightarrow> SignatureBlock" where
  "sample_block ts = \<lparr>sb_Algorithm = SigAlgEd25519, sb_VMID = MakeDIDKey (replicate 32 5) @ ''#k'',
     sb_Nonce = replicate 16 7, sb_TimestampMS = ts, sb_Signature = []\<rparr>"

lemma sample_did: "signing_did (sample_block ts) = MakeDIDKey (replicate 32 5)"
  using Cut_VMID [of "replicate 32 5" "''k''"] by (simp add: signing_did_def sample_block_def)

lemma sample_key: "ResolveKey net v (sb_VMID (sample_block ts)) = Ok (replicate 32 5)"
  using ResolveKey_did_key [of "replicate 32 5" net v "''k''"] by (simp add: sample_block_def)

lemma sample_records:
  "in_window v now ts \<Longrightarrow> seen_at v (MakeDIDKey (replicate 32 5)) (replicate 16 7) = None \<Longrightarrow>
   records v now (sample_block ts)"
  using sample_did [of ts] by (simp add: records_def sample_block_def MakeDIDKey_def didKeyPrefix_def)

lemma sample_accepted:
  "in_window v now ts \<Longrightarrow> seen_at v (MakeDIDKey (replicate 32 5)) (replicate 16 7) = None \<Longrightarrow>
   fst (Verify net (\<lambda>_ _ _. True) now v (sample_block ts) msg) = Ok ()"
  by (auto simp: Verify_Ok_iff sample_key intro: sample_records)

lemma NewVerifier_seen [simp]: "seen_at NewVerifier did n = None"
  by (simp add: seen_at_def NewVerifier_def)

lemma NewVerifier_Window [simp]: "sint (v_Window NewVerifier) = 300000000000"
  by (simp add: NewVerifier_def ReplayWindow_def)

lemma window_ok_NewVerifier: "window_ok NewVerifier"
  by (simp add: window_ok_def)

theorem no_replay_witness:
  "\<exists>net ed. fst (verify_run net ed NewVerifier [(0, sample_block 0, []), (1, sample_block 0, [])]) ! 0 = Ok () \<and>
            fst (verify_run net ed NewVerifier [(0, sample_block 0, []), (1, sample_block 0, [])]) ! 1 \<noteq> Ok ()"
proof -
  let ?cs = "[(0, sample_block 0, []), (1, sample_block 0, [])] :: call list"
  fix net :: network
  let ?ed = "\<lambda>(_ :: bytes) (_ :: bytes) (_ :: bytes). True"
  have "in_window NewVerifier 0 0" by (simp add: in_window_iff age_def)
  then have "fst (Verify net ?ed 0 NewVerifier (sample_block 0) []) = Ok ()" by (intro sample_accepted) simp_all
  then have first: "fst (verify_run net ?ed NewVerifier ?cs) ! 0 = Ok ()" by (simp add: case_prod_beta)
  have "fst (verify_run net ?ed NewVerifier ?cs) ! 1 \<noteq> Ok ()"
    by (rule no_replay [of 0 1 ?cs 0 "sample_block 0" "[]" 1 "sample_block 0" "[]"])
       (use first window_ok_NewVerifier in \<open>simp_all add: clock_ok_def\<close>)
  with first show ?thesis by blast
qed

theorem verify_no_panic_witness:
  "fst (Verify \<lparr>NewRequest = (\<lambda>_. None), DefaultClient = (\<lambda>_. Err EOF), DefaultLookupTXT = (\<lambda>_. Err EOF),
                Unmarshal = (\<lambda>_. Err EOF)\<rparr> (\<lambda>_ _ _. True) 0
          (NewVerifier\<lparr>v_Resolver := Some \<lparr>r_HTTPClient = None, r_LookupTXT = None\<rparr>\<rparr>) (sample_block 0) []) \<noteq> Panic"
  by (rule verify_no_panic) (auto simp: fetchDIDDocument_def httpClient_def)

text \<open>
  Nonces of unverified blocks.  A block that reaches the cache leaves its nonce there
  even when its key does not resolve or its signature is wrong: the genuine block with that
  DID and nonce, presented next, is refused as a replay, so whoever sends a nonce first,
  signed or not, blocks it.
\<close>

theorem nonce_recorded_before_signature:
  assumes "records v now forged"
    and "signing_did genuine = signing_did forged" "sb_Nonce genuine = sb_Nonce forged"
    and "sb_Algorithm genuine = SigAlgEd25519" "in_window v now' (sb_TimestampMS genuine)"
  shows "fst (Verify net ed now' (snd (Verify net ed' now v forged msg)) genuine msg') =
         Err (Wrap ''did'' ErrReplayedNonce)"
proof -
  let ?v = "snd (Verify net ed' now v forged msg)"
  have "seen_at ?v (signing_did forged) (sb_Nonce forged) = Some (sb_TimestampMS forged)"
    using assms(1) by (rule recorded_seen)
  moreover have "signing_did forged \<noteq> ''''" using assms(1) by (simp add: records_def)
  moreover have "in_window ?v now' (sb_TimestampMS genuine)" using assms(5) by (simp add: in_window_def)
  ultimately show ?thesis using assms(2-4) by (simp add: Verify_result)
qed

theorem nonce_recorded_before_signature_witness:
  "\<exists>net. fst (Verify net (\<lambda>_ _ _. False) 0 NewVerifier (sample_block 0) []) = Err (Wrap ''did'' ErrBadSignature) \<and>
         fst (Verify net (\<lambda>_ _ _. True) 1 (snd (Verify net (\<lambda>_ _ _. False) 0 NewVerifier (sample_block 0) []))
                (sample_block 0) []) = Err (Wrap ''did'' ErrReplayedNonce)"
proof -
  fix net :: network
  have w: "in_window NewVerifier 0 0" "in_window NewVerifier 1 0" by (simp_all add: in_window_iff age_def)
  have r: "records NewVerifier 0 (sample_block 0)" using w(1) by (rule sample_records) simp
  then have "fst (Verify net (\<lambda>_ _ _. False) 0 NewVerifier (sample_block 0) []) = Err (Wrap ''did'' ErrBadSignature)"
    using w by (simp add: Verify_result records_def sample_key VerifyEd25519_def PublicKeySize_def)
  moreover have "fst (Verify net (\<lambda>_ _ _. True) 1 (snd (Verify net (\<lambda>_ _ _. False) 0 NewVerifier (sample_block 0) []))
      (sample_block 0) []) = Err (Wrap ''did'' ErrReplayedNonce)"
    by (rule nonce_recorded_before_signature [OF r]) (use w in \<open>simp_all add: sample_block_def\<close>)
  ultimately show ?thesis by blast
qed

text \<open>
  Cache stays within the window.  After a call that records a nonce, every entry kept
  for that DID has a timestamp no older than one window (to the millisecond): the cache of a
  DID never holds an entry that could not be replayed any more.
\<close>

theorem cache_within_window:
  assumes "records v now block" "clock_ok now" "window_ok v"
    and "seen_at (snd (Verify net ed now v block msg)) (signing_did block) n = Some ts"
  shows "(now - sint (v_Window v)) div 1000000 \<le> sint ts"
proof (cases "n = sb_Nonce block")
  case True
  then have "ts = sb_TimestampMS block" using assms(1,4) by (simp add: Verify_seen)
  then have "in_window v now ts" using assms(1) by (simp add: records_def)
  then show ?thesis using not_evicted [OF assms(2,3) order_refl, of ts] sint_cutoff_of [OF assms(2,3)] by simp
next
  case False
  then show ?thesis using assms(1,4) sint_cutoff_of [OF assms(2,3)]
    by (auto simp: Verify_seen not_less split: option.splits if_splits)
qed

theorem cache_within_window_witness:
  "\<exists>net. seen_at (snd (Verify net (\<lambda>_ _ _. True) 0 NewVerifier (sample_block 0) []))
           (signing_did (sample_block 0)) (replicate 16 7) = Some 0 \<and>
         (0 - sint (v_Window NewVerifier)) div 1000000 \<le> sint (0 :: u64)"
proof -
  fix net :: network
  have r: "records NewVerifier 0 (sample_block 0)" by (rule sample_records) (simp_all add: in_window_iff age_def)
  have s: "seen_at (snd (Verify net (\<lambda>_ _ _. True) 0 NewVerifier (sample_block 0) []))
      (signing_did (sample_block 0)) (replicate 16 7) = Some 0"
    using recorded_seen [OF r, of net "\<lambda>_ _ _. True" "[]"] by (simp add: sample_block_def)
  show ?thesis
    using s cache_within_window [OF r _ window_ok_NewVerifier s] by (auto simp: clock_ok_def)
qed

text \<open>
  C38 (the clock is read before the lock).  Take a block that is in the window at time \<open>t\<close>
  and older than the window at a later time \<open>t'\<close>, and another block of the same DID that is
  in the window at \<open>t'\<close>, both correctly signed and both new to the verifier.  With three
  concurrent calls and a clock that does not go back, the first block is accepted twice:
  two calls for it read the clock at \<open>t\<close>, one of them runs its critical section, the call for
  the other block reads the clock at \<open>t'\<close> and evicts the first nonce, and then the second call
  for the first block, still with its reading \<open>t\<close>, finds no trace of it.
\<close>

theorem replay_under_concurrency:
  assumes "SignatureBlock_wf b" "SignatureBlock_wf c" "sb_Algorithm b = SigAlgEd25519" "sb_Algorithm c = SigAlgEd25519"
    and "published_key net v (sb_VMID b) pb" "ed pb mb (sb_Signature b)"
    and "published_key net v (sb_VMID c) pc" "ed pc mc (sb_Signature c)"
    and "signing_did c = signing_did b" "sb_Nonce c \<noteq> sb_Nonce b"
    and "seen_at v (signing_did b) (sb_Nonce b) = None" "seen_at v (signing_did b) (sb_Nonce c) = None"
    and "t \<le> t'" "clock_ok t'" "window_ok v"
    and "in_window v t (sb_TimestampMS b)" "in_window v t' (sb_TimestampMS c)"
    and "sint (sb_TimestampMS b) < (t' - sint (v_Window v)) div 1000000"
  shows "\<exists>s. (verify_step net ed)\<^sup>*\<^sup>* (verify_start v t [(b, mb), (c, mc), (b, mb)]) s \<and>
    vc_pc (vs_calls s ! 0) = V_done (Ok ()) \<and> vc_pc (vs_calls s ! 2) = V_done (Ok ())"
proof -
  let ?v1 = "snd (Verify net ed t v b mb)"
  let ?v2 = "snd (Verify net ed t' ?v1 c mc)"
  let ?v3 = "snd (Verify net ed t ?v2 b mb)"
  have key: "ResolveKey net w (sb_VMID x) = Ok p" if "published_key net v (sb_VMID x) p" "v_Resolver w = v_Resolver v" for w x p
    using that ResolveKey_Ok_iff [of net v "sb_VMID x" p] ResolveKey_window_cong [of w v net] by simp
  have r1: "records v t b" using assms(3,11,16) published_did [OF assms(5)] by (simp add: records_def)
  have s1: "seen_at ?v1 (signing_did b) (sb_Nonce c) = None" "seen_at ?v1 (signing_did b) (sb_Nonce b) = Some (sb_TimestampMS b)"
    using r1 assms(10,12) by (simp_all add: Verify_seen)
  have r2: "records ?v1 t' c"
    using assms(4,9,17) s1(1) published_did [OF assms(7)] by (simp add: records_def in_window_def)
  have "sint (cutoff_of ?v1 t') = (t' - sint (v_Window v)) div 1000000"
    using sint_cutoff_of [OF assms(14), of ?v1] assms(15) by (simp add: window_ok_def)
  then have "seen_at ?v2 (signing_did b) (sb_Nonce b) = None"
    using s1(2) r2 assms(9,10,18) by (subst Verify_seen) auto
  then have r3: "records ?v2 t b" using r1 by (simp add: records_def in_window_def)
  have ok: "fst (Verify net ed t v b mb) = Ok ()" "fst (Verify net ed t' ?v1 c mc) = Ok ()" "fst (Verify net ed t ?v2 b mb) = Ok ()"
    using r1 r2 r3 key [OF assms(5)] key [OF assms(7)] assms(6,8) by (simp_all add: Verify_Ok_iff)
  let ?call = "\<lambda>(x, m) p. \<lparr>vc_block = x, vc_msg = m, vc_pc = p\<rparr>"
  let ?st = "\<lambda>u w p q r l. \<lparr>vs_clock = u, vs_verifier = w, vs_calls = [?call (b, mb) p, ?call (c, mc) q, ?call (b, mb) r], vs_log = l\<rparr>"
  let ?l1 = "[((t, b, mb), Ok ())]" and ?l2 = "[((t, b, mb), Ok ()), ((t', c, mc), Ok ())]"
  let ?l3 = "[((t, b, mb), Ok ()), ((t', c, mc), Ok ()), ((t, b, mb), Ok ())]"
  let ?to = "verify_step net ed"
  have "?to (?st t v V_start V_start V_start []) (?st t v (V_read t) V_start V_start [])"
    using read_clock [of 0 "?st t v V_start V_start V_start []" "?call (b, mb) V_start"] by simp
  moreover have "?to (?st t v (V_read t) V_start V_start []) (?st t v (V_read t) V_start (V_read t) [])"
    using read_clock [of 2 "?st t v (V_read t) V_start V_start []" "?call (b, mb) V_start"] by simp
  moreover have "?to (?st t v (V_read t) V_start (V_read t) []) (?st t ?v1 (V_done (Ok ())) V_start (V_read t) ?l1)"
    using critical [of 0 "?st t v (V_read t) V_start (V_read t) []" "?call (b, mb) (V_read t)" t net ed "Ok ()" ?v1] ok(1)
    by (simp add: prod_eq_iff)
  moreover have "?to (?st t ?v1 (V_done (Ok ())) V_start (V_read t) ?l1) (?st t' ?v1 (V_done (Ok ())) V_start (V_read t) ?l1)"
    using tick [of "?st t ?v1 (V_done (Ok ())) V_start (V_read t) ?l1" t'] assms(13) by simp
  moreover have "?to (?st t' ?v1 (V_done (Ok ())) V_start (V_read t) ?l1) (?st t' ?v1 (V_done (Ok ())) (V_read t') (V_read t) ?l1)"
    using read_clock [of 1 "?st t' ?v1 (V_done (Ok ())) V_start (V_read t) ?l1" "?call (c, mc) V_start"] by simp
  moreover have "?to (?st t' ?v1 (V_done (Ok ())) (V_read t') (V_read t) ?l1) (?st t' ?v2 (V_done (Ok ())) (V_done (Ok ())) (V_read t) ?l2)"
    using critical [of 1 "?st t' ?v1 (V_done (Ok ())) (V_read t') (V_read t) ?l1" "?call (c, mc) (V_read t')" t' net ed "Ok ()" ?v2] ok(2)
    by (simp add: prod_eq_iff)
  moreover have "?to (?st t' ?v2 (V_done (Ok ())) (V_done (Ok ())) (V_read t) ?l2) (?st t' ?v3 (V_done (Ok ())) (V_done (Ok ())) (V_done (Ok ())) ?l3)"
    using critical [of 2 "?st t' ?v2 (V_done (Ok ())) (V_done (Ok ())) (V_read t) ?l2" "?call (b, mb) (V_read t)" t net ed "Ok ()" ?v3] ok(3)
    by (simp add: prod_eq_iff)
  ultimately have "?to\<^sup>*\<^sup>* (?st t v V_start V_start V_start []) (?st t' ?v3 (V_done (Ok ())) (V_done (Ok ())) (V_done (Ok ())) ?l3)"
    by (meson converse_rtranclp_into_rtranclp rtranclp.rtrancl_refl)
  then show ?thesis
    by (intro exI [of _ "?st t' ?v3 (V_done (Ok ())) (V_done (Ok ())) (V_done (Ok ())) ?l3"]) (simp add: verify_start_def)
qed

theorem replay_under_concurrency_witness:
  "\<exists>net s. (verify_step net (\<lambda>_ _ _. True))\<^sup>*\<^sup>*
      (verify_start NewVerifier 300000000000
         [(sample_block 0, []), (sample_block 1\<lparr>sb_Nonce := replicate 16 8\<rparr>, []), (sample_block 0, [])]) s \<and>
    vc_pc (vs_calls s ! 0) = V_done (Ok ()) \<and> vc_pc (vs_calls s ! 2) = V_done (Ok ())"
proof -
  fix net :: network
  let ?ed = "\<lambda>(_ :: bytes) (_ :: bytes) (_ :: bytes). True"
  let ?b = "sample_block 0" and ?c = "sample_block 1\<lparr>sb_Nonce := replicate 16 8\<rparr>"
  have len: "length (MakeDIDKey (replicate 32 5)) < 2 ^ 62 - 2" using length_MakeDIDKey(1) [of "replicate 32 5"] by simp
  have p: "published_key net NewVerifier (sb_VMID (sample_block ts)) (replicate 32 5)" for ts
    using sample_key [of net NewVerifier ts] by (simp add: ResolveKey_Ok_iff)
  have "\<exists>s. (verify_step net ?ed)\<^sup>*\<^sup>* (verify_start NewVerifier 300000000000 [(?b, []), (?c, []), (?b, [])]) s \<and>
      vc_pc (vs_calls s ! 0) = V_done (Ok ()) \<and> vc_pc (vs_calls s ! 2) = V_done (Ok ())"
  proof (rule replay_under_concurrency [where t' = 300001000000 and pb = "replicate 32 5" and pc = "replicate 32 5"])
    show "signing_did ?c = signing_did ?b" using sample_did by (simp add: signing_did_def)
  qed (use len p [of 0] p [of 1] in \<open>simp_all add: sample_block_def SignatureBlock_wf_def clock_ok_def window_ok_NewVerifier in_window_iff age_def\<close>)
  then show ?thesis by blast
qed

end
