(* ===== verification/Stream_IO.thy ===== *)
theory Stream_IO imports Frame begin

text \<open>
  The streaming reader of \<^verbatim>\<open>conn.go\<close> and the frame operations of a stream.

  An \<^verbatim>\<open>io.Reader\<close> is what its future reads deliver: chunks of bytes, some possibly empty,
  and the error that ends them, which may come together with the last chunk, as the
  contract of \<^verbatim>\<open>io.Reader\<close> allows.  A QUIC stream is such a reader with a write side that
  answers each write with an error or none; the model records the writes made and whether
  the send side was closed.  No assumption is made on how the network cuts the bytes.
\<close>

section \<open>Readers\<close>

record Reader =
  rd_chunks :: "bytes list"
  rd_err :: error
  rd_joined :: bool

definition Read :: "nat \<Rightarrow> Reader \<Rightarrow> bytes \<times> error option \<times> Reader" where
  "Read k r =
     (case rd_chunks r of
        [] \<Rightarrow> ([], Some (rd_err r), r)
      | c # cs \<Rightarrow>
          if length c \<le> k then
            (c, if cs = [] \<and> rd_joined r then Some (rd_err r) else None, r\<lparr>rd_chunks := cs\<rparr>)
          else (take k c, None, r\<lparr>rd_chunks := drop k c # cs\<rparr>))"

text \<open>The loop of \<^verbatim>\<open>io.ReadAtLeast\<close>: \<^verbatim>\<open>for n < min && err == nil\<close>.\<close>

function read_loop :: "nat \<Rightarrow> bytes \<Rightarrow> Reader \<Rightarrow> bytes \<times> error option \<times> Reader" where
  "read_loop k buf r =
     (if length buf < k then
        (case Read (k - length buf) r of
           (b, None, r') \<Rightarrow> read_loop k (buf @ b) r'
         | (b, Some e, r') \<Rightarrow> (buf @ b, Some e, r'))
      else (buf, None, r))"
  by pat_completeness auto
termination
proof (relation "measure (\<lambda>(k, buf, r). (k - length buf) + length (rd_chunks r))")
  fix k r b r' and buf :: bytes
  fix e :: "error option" and z :: "error option \<times> Reader"
  assume "length buf < k" "(b, z) = Read (k - length buf) r" "(e, r') = z" "e = None"
  then show "((k, buf @ b, r'), (k, buf, r)) \<in> measure (\<lambda>(k, buf, r). (k - length buf) + length (rd_chunks r))"
    by (auto simp: Read_def split: list.splits if_splits)
qed simp

declare read_loop.simps [simp del]

definition ReadFull :: "nat \<Rightarrow> Reader \<Rightarrow> bytes outcome \<times> Reader" where
  "ReadFull k r =
     (case read_loop k [] r of
        (buf, err, r') \<Rightarrow>
          if k \<le> length buf then (Ok buf, r')
          else case err of
            Some e \<Rightarrow> (Err (if buf \<noteq> [] \<and> e = EOF then ErrUnexpectedEOF else e), r')
          | None \<Rightarrow> (Ok buf, r'))"

text \<open>Sequencing of reads: the rest runs only when the call before it returned a value.\<close>

definition rbind ::
  "(Reader \<Rightarrow> 'a outcome \<times> Reader) \<Rightarrow> ('a \<Rightarrow> Reader \<Rightarrow> 'b outcome \<times> Reader) \<Rightarrow> Reader \<Rightarrow> 'b outcome \<times> Reader" where
  "rbind m f r =
     (case m r of (Ok x, r') \<Rightarrow> f x r' | (Err e, r') \<Rightarrow> (Err e, r') | (Panic, r') \<Rightarrow> (Panic, r'))"

definition rreturn :: "'a outcome \<Rightarrow> Reader \<Rightarrow> 'a outcome \<times> Reader" where
  "rreturn x r = (x, r)"

definition readVarintFrom :: "Reader \<Rightarrow> u64 outcome \<times> Reader" where
  "readVarintFrom =
     rbind (ReadFull 1) (\<lambda>first.
     rbind (rreturn (index 0 first)) (\<lambda>first0.
     if drop_bit 6 first0 = 0 then rreturn (Ok (ucast (first0 AND 0x3F)))
     else
       (let size = (if drop_bit 6 first0 = 1 then 2 else if drop_bit 6 first0 = 2 then 4 else 8) in
        rbind (ReadFull (size - 1)) (\<lambda>tail.
        rreturn (obind (ReadVarint (first0 # tail)) (\<lambda>(v, _). Ok v))))))"

definition readFrame :: "Reader \<Rightarrow> Frame outcome \<times> Reader" where
  "readFrame =
     rbind (ReadFull 2) (\<lambda>header.
     rbind (rreturn (index 0 header)) (\<lambda>ty.
     rbind (rreturn (index 1 header)) (\<lambda>flags.
     rbind readVarintFrom (\<lambda>opid.
     rbind readVarintFrom (\<lambda>plen.
     if plen > MaxFrameSize then rreturn (Err ErrFrameTooLarge)
     else
       rbind (if plen > 0 then ReadFull (unat plen) else rreturn (Ok [])) (\<lambda>payload.
       rreturn (Ok \<lparr>f_Type = ty, f_Flags = flags, f_OpID = opid, f_Payload = payload\<rparr>)))))))"

section \<open>Streams\<close>

record Stream =
  s_ID :: u64
  s_in :: Reader
  s_write :: "bytes \<Rightarrow> error option"
  s_sent :: "bytes list"
  s_closed :: bool

text \<open>\<open>s_sent\<close> lists the writes the stream accepted, oldest first.\<close>

definition Stream_SendFrame :: "Stream \<Rightarrow> Frame \<Rightarrow> unit outcome \<times> Stream" where
  "Stream_SendFrame s f =
     (case Frame_Encode f of
        Ok bs \<Rightarrow>
          (case s_write s bs of
             Some e \<Rightarrow> (Err (Wrap ''aire: SendFrame'' e), s)
           | None \<Rightarrow> (Ok (), s\<lparr>s_sent := s_sent s @ [bs]\<rparr>))
      | Err e \<Rightarrow> (Err e, s)
      | Panic \<Rightarrow> (Panic, s))"

definition Stream_RecvFrame :: "Stream \<Rightarrow> Frame outcome \<times> Stream" where
  "Stream_RecvFrame s = (case readFrame (s_in s) of (res, r) \<Rightarrow> (res, s\<lparr>s_in := r\<rparr>))"

definition Stream_Close :: "Stream \<Rightarrow> Stream" where
  "Stream_Close s = s\<lparr>s_closed := True\<rparr>"

section \<open>Reading is a function of the pending bytes\<close>

definition pending :: "Reader \<Rightarrow> bytes" where
  "pending r = concat (rd_chunks r)"

lemma rd_err_update [simp]: "rd_err (r\<lparr>rd_chunks := cs\<rparr>) = rd_err r"
  by simp

lemma Read_None:
  assumes "Read k r = (b, None, r')" "0 < k"
  shows "b @ pending r' = pending r" "length b \<le> k" "rd_err r' = rd_err r" "rd_joined r' = rd_joined r"
  using assms by (auto simp: Read_def pending_def split: list.splits if_splits)

lemma Read_Some:
  assumes "Read k r = (b, Some e, r')"
  shows "b = pending r" "pending r' = []" "length b \<le> k" "e = rd_err r" "rd_err r' = rd_err r"
  using assms by (auto simp: Read_def pending_def split: list.splits if_splits)

lemma read_loop_spec:
  assumes "read_loop k buf r = (buf', err, r')" "length buf \<le> k"
  shows "buf' @ pending r' = buf @ pending r \<and> rd_err r' = rd_err r \<and> length buf' \<le> k \<and>
    (length buf' < k \<longrightarrow> err = Some (rd_err r) \<and> pending r' = [])"
  using assms
proof (induction k buf r arbitrary: buf' err r' rule: read_loop.induct)
  case (1 k buf r)
  show ?case
  proof (cases "length buf < k")
    case True
    obtain b e r1 where R: "Read (k - length buf) r = (b, e, r1)" by (cases "Read (k - length buf) r") auto
    show ?thesis
    proof (cases e)
      case None
      then have L: "read_loop k (buf @ b) r1 = (buf', err, r')"
        using 1(2) R True by (subst (asm) read_loop.simps) simp
      note n = Read_None [OF R [unfolded None]]
      have "length (buf @ b) \<le> k" using n(2) True by simp
      from "1.IH" [OF True R [symmetric] refl None L this]
      show ?thesis using n True by simp
    next
      case (Some e')
      then have "buf' = buf @ b" "err = Some e'" "r' = r1"
        using 1(2) R True by (subst (asm) read_loop.simps, simp)+
      then show ?thesis using Read_Some [OF R [unfolded Some]] True by simp
    qed
  next
    case False
    then show ?thesis using 1(2,3) by (subst (asm) read_loop.simps) simp
  qed
qed

text \<open>
  The abstract reader works on the bytes still to come and the error behind them; how they
  are cut into chunks is gone.  \<open>implements m g\<close> says that \<open>m\<close> does on readers what \<open>g\<close> does on
  bytes.
\<close>

type_synonym 'a abstract_reader = "bytes \<Rightarrow> error \<Rightarrow> 'a outcome \<times> bytes"

definition implements :: "(Reader \<Rightarrow> 'a outcome \<times> Reader) \<Rightarrow> 'a abstract_reader \<Rightarrow> bool" where
  "implements m g \<longleftrightarrow>
     (\<forall>r. fst (m r) = fst (g (pending r) (rd_err r)) \<and>
          pending (snd (m r)) = snd (g (pending r) (rd_err r)) \<and> rd_err (snd (m r)) = rd_err r)"

definition cut_err :: "bool \<Rightarrow> error \<Rightarrow> error" where
  "cut_err started e = (if started \<and> e = EOF then ErrUnexpectedEOF else e)"

definition afull :: "nat \<Rightarrow> bytes abstract_reader" where
  "afull k p e = (if k \<le> length p then (Ok (take k p), drop k p) else (Err (cut_err (p \<noteq> []) e), []))"

definition abind :: "'a abstract_reader \<Rightarrow> ('a \<Rightarrow> 'b abstract_reader) \<Rightarrow> 'b abstract_reader" where
  "abind g h p e =
     (case g p e of (Ok x, p') \<Rightarrow> h x p' e | (Err e', p') \<Rightarrow> (Err e', p') | (Panic, p') \<Rightarrow> (Panic, p'))"

definition areturn :: "'a outcome \<Rightarrow> 'a abstract_reader" where
  "areturn x p e = (x, p)"

lemma implements_full: "implements (ReadFull k) (afull k)"
  unfolding implements_def
proof
  fix r
  obtain buf err r' where L: "read_loop k [] r = (buf, err, r')" by (cases "read_loop k [] r") auto
  have s: "buf @ pending r' = pending r" "rd_err r' = rd_err r" "length buf \<le> k"
      "length buf < k \<longrightarrow> err = Some (rd_err r) \<and> pending r' = []"
    using read_loop_spec [OF L] by auto
  have b: "buf = take (length buf) (pending r)" "pending r' = drop (length buf) (pending r)"
    using s(1) by (metis append_eq_conv_conj)+
  show "fst (ReadFull k r) = fst (afull k (pending r) (rd_err r)) \<and>
        pending (snd (ReadFull k r)) = snd (afull k (pending r) (rd_err r)) \<and>
        rd_err (snd (ReadFull k r)) = rd_err r"
  proof (cases "length buf < k")
    case True
    then have "buf = pending r" "pending r' = []" "err = Some (rd_err r)" using s by auto
    then show ?thesis using True s(2) L by (simp add: ReadFull_def afull_def cut_err_def)
  next
    case False
    then have "length buf = k" using s(3) by simp
    moreover have "k \<le> length (pending r)" using \<open>length buf = k\<close> s(1) by (metis le_add1 length_append)
    ultimately show ?thesis using b s(2) L by (simp add: ReadFull_def afull_def)
  qed
qed

lemma implements_bind:
  assumes "implements m g" "\<And>x. implements (f x) (h x)"
  shows "implements (rbind m f) (abind g h)"
  unfolding implements_def
proof
  fix r
  have g: "fst (m r) = fst (g (pending r) (rd_err r))" "pending (snd (m r)) = snd (g (pending r) (rd_err r))"
      "rd_err (snd (m r)) = rd_err r"
    using assms(1) by (auto simp: implements_def)
  obtain x r' where m: "m r = (x, r')" by (cases "m r")
  have G: "g (pending r) (rd_err r) = (x, pending r')" and e: "rd_err r' = rd_err r"
    using g m by (simp_all add: prod_eq_iff)
  show "fst (rbind m f r) = fst (abind g h (pending r) (rd_err r)) \<and>
        pending (snd (rbind m f r)) = snd (abind g h (pending r) (rd_err r)) \<and>
        rd_err (snd (rbind m f r)) = rd_err r"
  proof (cases x)
    case (Ok y)
    have "fst (f y r') = fst (h y (pending r') (rd_err r'))" "pending (snd (f y r')) = snd (h y (pending r') (rd_err r'))"
        "rd_err (snd (f y r')) = rd_err r'"
      using assms(2) [of y] by (auto simp: implements_def)
    then show ?thesis using G e m Ok by (simp add: rbind_def abind_def)
  qed (use G e m in \<open>simp_all add: rbind_def abind_def\<close>)
qed

lemma implements_return: "implements (rreturn x) (areturn x)"
  by (simp add: implements_def rreturn_def areturn_def)

lemmas implements_intros = implements_full implements_bind implements_return

text \<open>The varint reader on bytes: the decoder, and the cut that the byte-by-byte reads report.\<close>

definition avarint :: "u64 abstract_reader" where
  "avarint p e =
     (case ReadVarint p of
        Ok (v, n) \<Rightarrow> (Ok v, drop n p)
      | _ \<Rightarrow> (Err (cut_err (1 < length p) e), []))"

definition avarint_steps :: "u64 abstract_reader" where
  "avarint_steps =
     abind (afull 1) (\<lambda>first.
     abind (areturn (index 0 first)) (\<lambda>first0.
     if drop_bit 6 first0 = 0 then areturn (Ok (ucast (first0 AND 0x3F)))
     else
       (let size = (if drop_bit 6 first0 = 1 then 2 else if drop_bit 6 first0 = 2 then 4 else 8) in
        abind (afull (size - 1)) (\<lambda>tail.
        areturn (obind (ReadVarint (first0 # tail)) (\<lambda>(v, _). Ok v))))))"

lemma implements_varint_steps: "implements readVarintFrom avarint_steps"
  unfolding readVarintFrom_def avarint_steps_def Let_def
  by (intro implements_intros allI impI) (auto intro!: implements_intros)

lemma ReadVarint_size_cases:
  "ReadVarint (x # xs) =
     (if drop_bit 6 x = 0 then Ok (ucast (x AND 0x3F), 1)
      else let size = (if drop_bit 6 x = 1 then 2 else if drop_bit 6 x = 2 then 4 else 8) in
        if length xs < size - 1 then Err ErrShortBuffer
        else obind (ReadVarint (x # take (size - 1) xs)) (\<lambda>(v, _). Ok (v, size)))"
proof -
  consider "drop_bit 6 x = 0" | "drop_bit 6 x \<noteq> 0" "drop_bit 6 x = 1" | "drop_bit 6 x \<noteq> 0" "drop_bit 6 x = 2"
    | "drop_bit 6 x \<noteq> 0" "drop_bit 6 x \<noteq> 1" "drop_bit 6 x \<noteq> 2" by blast
  then show ?thesis by cases (auto simp: ReadVarint_def min_def)
qed

lemma avarint_steps_eq: "avarint_steps = avarint"
proof (intro ext)
  fix p e
  show "avarint_steps p e = avarint p e"
  proof (cases p)
    case Nil
    then show ?thesis by (simp add: avarint_steps_def avarint_def abind_def afull_def ReadVarint_def cut_err_def)
  next
    case (Cons x xs)
    define size where "size = (if drop_bit 6 x = 1 then 2 else if drop_bit 6 x = 2 then 4 else 8 :: nat)"
    have size: "2 \<le> size" by (simp add: size_def)
    show ?thesis
    proof (cases "drop_bit 6 x = 0")
      case True
      then show ?thesis using Cons
        by (simp add: avarint_steps_def avarint_def abind_def afull_def areturn_def ReadVarint_size_cases [of x])
    next
      case False
      have steps: "avarint_steps p e =
          (if size - 1 \<le> length xs
           then (obind (ReadVarint (x # take (size - 1) xs)) (\<lambda>(v, _). Ok v), drop (size - 1) xs)
           else (Err (cut_err (xs \<noteq> []) e), []))"
        using Cons False
        by (simp add: avarint_steps_def abind_def afull_def areturn_def flip: size_def)
      have rv: "ReadVarint p = (if length xs < size - 1 then Err ErrShortBuffer
          else obind (ReadVarint (x # take (size - 1) xs)) (\<lambda>(v, _). Ok (v, size)))"
        using Cons False ReadVarint_size_cases [of x xs] by (simp flip: size_def)
      have "\<exists>v n. ReadVarint (x # take (size - 1) xs) = Ok (v, n)" if "\<not> length xs < size - 1"
        using that False by (auto simp: size_def ReadVarint_def min_def split: if_splits)
      then show ?thesis
        using steps rv Cons size by (auto simp: avarint_def cut_err_def drop_Cons' not_less)
    qed
  qed
qed

lemma implements_varint: "implements readVarintFrom avarint"
  using implements_varint_steps by (simp add: avarint_steps_eq)

text \<open>A frame cut short where one of the reads begins: nothing, the header, the first byte of a varint.\<close>

definition at_boundary :: "bytes \<Rightarrow> bool" where
  "at_boundary p \<longleftrightarrow> length p = 0 \<or> length p = 2 \<or> length p = 3 \<or>
     (case ReadVarint (drop 2 p) of
        Ok (_, n) \<Rightarrow> length p = 2 + n \<or> length p = 3 + n \<or>
          (case ReadVarint (drop (2 + n) p) of Ok (_, m) \<Rightarrow> length p = 2 + n + m | _ \<Rightarrow> False)
      | _ \<Rightarrow> False)"

definition header_end :: "bytes \<Rightarrow> nat" where
  "header_end p =
     (case ReadVarint (drop 2 p) of
        Ok (_, n) \<Rightarrow> (case ReadVarint (drop (2 + n) p) of Ok (_, m) \<Rightarrow> 2 + n + m | _ \<Rightarrow> 0)
      | _ \<Rightarrow> 0)"

definition aframe :: "Frame abstract_reader" where
  "aframe p e =
     (case Decode p of
        Ok (f, n) \<Rightarrow> (Ok f, drop n p)
      | Err e' \<Rightarrow>
          if e' = ErrFrameTooLarge then (Err ErrFrameTooLarge, drop (header_end p) p)
          else (Err (cut_err (\<not> at_boundary p) e), [])
      | Panic \<Rightarrow> (Panic, []))"

definition aframe_steps :: "Frame abstract_reader" where
  "aframe_steps =
     abind (afull 2) (\<lambda>header.
     abind (areturn (index 0 header)) (\<lambda>ty.
     abind (areturn (index 1 header)) (\<lambda>flags.
     abind avarint (\<lambda>opid.
     abind avarint (\<lambda>plen.
     if plen > MaxFrameSize then areturn (Err ErrFrameTooLarge)
     else
       abind (if plen > 0 then afull (unat plen) else areturn (Ok [])) (\<lambda>payload.
       areturn (Ok \<lparr>f_Type = ty, f_Flags = flags, f_OpID = opid, f_Payload = payload\<rparr>)))))))"

lemma implements_frame_steps: "implements readFrame aframe_steps"
  unfolding readFrame_def aframe_steps_def
  by (intro implements_intros implements_varint allI impI) (auto intro!: implements_intros)

lemma aframe_steps_payload:
  assumes "2 \<le> length p" "ReadVarint (drop 2 p) = Ok (opid, n)" "ReadVarint (drop (2 + n) p) = Ok (plen, m)"
  shows "aframe_steps p e = aframe p e"
proof -
  have b: "0 < n" "2 + n \<le> length p" "0 < m" "2 + n + m \<le> length p"
    using varint.dec_bound [OF assms(2)] varint.dec_bound [OF assms(3)] assms(1) by auto
  have p: "p \<noteq> []" "Suc 0 < length p" using assms(1) by auto
  let ?rest = "drop (2 + n + m) p"
  have steps: "aframe_steps p e =
      (if plen > MaxFrameSize then (Err ErrFrameTooLarge, ?rest)
       else abind (if plen > 0 then afull (unat plen) else areturn (Ok [])) (\<lambda>payload.
         areturn (Ok \<lparr>f_Type = p ! 0, f_Flags = p ! 1, f_OpID = opid, f_Payload = payload\<rparr>)) ?rest e)"
    using assms p
    by (simp add: aframe_steps_def abind_def afull_def areturn_def avarint_def index_def add.commute add.left_commute
        del: add_2_eq_Suc' add_2_eq_Suc)
  have dec: "Decode p =
      (if plen > MaxFrameSize then Err ErrFrameTooLarge
       else if length p - (2 + n + m) < unat plen then Err ErrShortBuffer
       else obind (if plen > 0 then subslice (2 + n + m) (2 + n + m + unat plen) p else Ok []) (\<lambda>payload.
          Ok (\<lparr>f_Type = p ! 0, f_Flags = p ! 1, f_OpID = opid, f_Payload = payload\<rparr>, 2 + n + m + unat plen)))"
    using assms b p by (simp add: Decode_def Let_def from_pos_Ok del: add_2_eq_Suc' add_2_eq_Suc)
  have bd: "at_boundary p \<longleftrightarrow> ?rest = []"
    using assms b by (auto simp: at_boundary_def simp del: add_2_eq_Suc' add_2_eq_Suc)
  have he: "header_end p = 2 + n + m" using assms by (simp add: header_end_def)
  show ?thesis
  proof (cases "plen > MaxFrameSize \<or> unat plen = 0")
    case True
    then show ?thesis using steps dec he
      by (auto simp: aframe_def abind_def areturn_def unat_eq_0 word_gt_0)
  next
    case False
    then have "plen > 0" by (simp add: word_gt_0 unat_eq_0)
    then show ?thesis using steps dec bd b False
      by (auto simp: aframe_def abind_def areturn_def afull_def add.commute)
  qed
qed

lemma aframe_steps_eq: "aframe_steps = aframe"
proof (intro ext)
  fix p e
  consider "length p < 2" | "2 \<le> length p" "\<nexists>x n. ReadVarint (drop 2 p) = Ok (x, n)"
    | x n where "2 \<le> length p" "ReadVarint (drop 2 p) = Ok (x, n)" "\<nexists>y m. ReadVarint (drop (2 + n) p) = Ok (y, m)"
    | x n y m where "2 \<le> length p" "ReadVarint (drop 2 p) = Ok (x, n)" "ReadVarint (drop (2 + n) p) = Ok (y, m)"
    by (metis not_less)
  then show "aframe_steps p e = aframe p e"
  proof cases
    case 1
    then have "p = [] \<or> length p = 1" by (cases p) auto
    then show ?thesis
      by (auto simp: aframe_steps_def aframe_def abind_def afull_def Decode_def at_boundary_def ReadVarint_def cut_err_def)
  next
    case 2
    then obtain e' where v: "ReadVarint (drop 2 p) = Err e'"
      using ReadVarint_no_panic by (metis outcome.exhaust surj_pair)
    then have "e' = ErrShortBuffer" by (auto simp: ReadVarint_def split: if_splits)
    moreover have "p \<noteq> []" "Suc 0 < length p" using 2(1) by auto
    ultimately show ?thesis using 2(1) v
      by (auto simp: aframe_steps_def aframe_def abind_def afull_def avarint_def areturn_def Decode_def at_boundary_def
          index_def from_pos_Ok cut_err_def)
  next
    case (3 x n)
    then obtain e' where "ReadVarint (drop (2 + n) p) = Err e'"
      using ReadVarint_no_panic by (metis outcome.exhaust surj_pair)
    moreover from this have "e' = ErrShortBuffer" by (auto simp: ReadVarint_def split: if_splits)
    ultimately have v: "ReadVarint (drop (2 + n) p) = Err ErrShortBuffer" "ReadVarint (drop n (drop 2 p)) = Err ErrShortBuffer"
      by (simp_all add: add.commute)
    have p: "p \<noteq> []" "Suc 0 < length p" "length (drop n (drop 2 p)) = length p - (2 + n)" using 3(1) by auto
    have n: "0 < n" "2 + n \<le> length p" using varint.dec_bound [OF 3(2)] 3(1) by auto
    have steps: "aframe_steps p e = (Err (cut_err (1 < length p - (2 + n)) e), [])"
      unfolding aframe_steps_def abind_def afull_def areturn_def avarint_def
      using 3(1,2) v(2) p by (simp add: index_def del: drop_drop length_drop)
    have dec: "Decode p = Err ErrShortBuffer"
      using 3(1,2) v(1) p n by (simp add: Decode_def Let_def from_pos_Ok del: add_2_eq_Suc' add_2_eq_Suc)
    have "at_boundary p \<longleftrightarrow> \<not> 1 < length p - (2 + n)"
      using 3(2) v(1) n p(1) by (auto simp: at_boundary_def simp del: add_2_eq_Suc' add_2_eq_Suc)
    then show ?thesis using steps dec by (simp add: aframe_def cut_err_def)
  next
    case 4
    then show ?thesis by (rule aframe_steps_payload)
  qed
qed

lemma implements_frame: "implements readFrame aframe"
  using implements_frame_steps by (simp add: aframe_steps_eq)

section \<open>Properties\<close>

lemma readFrame_Ok:
  assumes "Decode (pending r) = Ok (f, n)"
  shows "fst (readFrame r) = Ok f" "pending (snd (readFrame r)) = drop n (pending r)"
    "rd_err (snd (readFrame r)) = rd_err r"
  using assms implements_frame by (simp_all add: implements_def aframe_def)

lemma read_frame_Err: "Decode (pending r) = Err e \<Longrightarrow> \<exists>e'. fst (readFrame r) = Err e'"
  using implements_frame by (auto simp: implements_def aframe_def)

lemma readFrame_Ok_iff: "fst (readFrame r) = Ok f \<longleftrightarrow> (\<exists>n. Decode (pending r) = Ok (f, n))"
  using readFrame_Ok [of r] read_frame_Err [of r] Decode_no_panic [of "pending r"]
  by (cases "Decode (pending r)") auto

lemma readFrame_no_panic: "fst (readFrame r) \<noteq> Panic"
  using implements_frame Decode_no_panic [of "pending r"]
  by (auto simp: implements_def aframe_def split: outcome.splits prod.splits)

lemma readFrame_end: "pending r = [] \<Longrightarrow> fst (readFrame r) = Err (rd_err r)"
  using implements_frame
  by (simp add: implements_def aframe_def Decode_def at_boundary_def cut_err_def)

text \<open>
  C20 (streaming reader).  Reading a frame from a stream gives what \<open>Decode\<close> gives on the
  bytes still to come, whatever chunks they arrive in: the same frame, with exactly its
  bytes consumed; \<open>ErrFrameTooLarge\<close> in the same cases; and otherwise the error that ends the
  stream, an end of file turned into an unexpected one unless the bytes stop where a field
  or the tail of a varint begins.
\<close>

theorem read_frame_refines_decode:
  "(case Decode (pending r) of
      Ok (f, n) \<Rightarrow> fst (readFrame r) = Ok f \<and> pending (snd (readFrame r)) = drop n (pending r)
    | Err e \<Rightarrow>
        fst (readFrame r) =
          Err (if e = ErrFrameTooLarge then ErrFrameTooLarge
               else if rd_err r = EOF \<and> \<not> at_boundary (pending r) then ErrUnexpectedEOF
               else rd_err r)
    | Panic \<Rightarrow> False)"
  using implements_frame Decode_no_panic [of "pending r"]
  by (auto simp: implements_def aframe_def cut_err_def split: outcome.splits)

text \<open>
  Chunks do not matter.  Two streams that will deliver the same bytes and the same
  final error, however cut into reads, yield the same frame or error, and leave the same
  bytes behind.
\<close>

theorem read_frame_chunk_independent:
  assumes "concat (rd_chunks r) = concat (rd_chunks r')" "rd_err r = rd_err r'"
  shows "fst (readFrame r) = fst (readFrame r') \<and>
         concat (rd_chunks (snd (readFrame r))) = concat (rd_chunks (snd (readFrame r')))"
  using assms implements_frame by (simp add: implements_def flip: pending_def)

theorem read_frame_chunk_independent_witness:
  "fst (readFrame \<lparr>rd_chunks = [[3], [], [0, 0x2a], [1, 9]], rd_err = EOF, rd_joined = True\<rparr>) =
   fst (readFrame \<lparr>rd_chunks = [[3, 0, 0x2a, 1, 9]], rd_err = EOF, rd_joined = False\<rparr>)"
  using read_frame_chunk_independent
    [of "\<lparr>rd_chunks = [[3], [], [0, 0x2a], [1, 9]], rd_err = EOF, rd_joined = True\<rparr>"
        "\<lparr>rd_chunks = [[3, 0, 0x2a, 1, 9]], rd_err = EOF, rd_joined = False\<rparr>"]
  by simp

text \<open>
  End of file inside a frame.  The documentation of \<^verbatim>\<open>RecvFrame\<close> reserves an end of file
  for a stream that ends between frames; a stream cut after the two header bytes gives it
  as well.
\<close>

theorem eof_inside_frame:
  assumes "concat (rd_chunks r) = [ty, flags]" "rd_err r = EOF"
  shows "fst (readFrame r) = Err EOF"
proof -
  have "Decode [ty, flags] = Err ErrShortBuffer" by (simp add: Decode_def from_pos_def ReadVarint_def)
  then show ?thesis
    using assms implements_frame
    by (simp add: implements_def aframe_def at_boundary_def cut_err_def pending_def)
qed

theorem eof_inside_frame_witness:
  "fst (readFrame \<lparr>rd_chunks = [[3, 0]], rd_err = EOF, rd_joined = False\<rparr>) = Err EOF"
  by (rule eof_inside_frame) simp_all

text \<open>Receiving as often as frames were sent.\<close>

fun recv_frames :: "nat \<Rightarrow> Reader \<Rightarrow> Frame list outcome \<times> Reader" where
  "recv_frames 0 r = (Ok [], r)"
| "recv_frames (Suc k) r = rbind readFrame (\<lambda>f. rbind (recv_frames k) (\<lambda>fs. rreturn (Ok (f # fs)))) r"

lemma recv_frames_encoded:
  "list_all Frame_wf fs \<Longrightarrow> encode_seq Frame_Encode fs = Ok bs \<Longrightarrow> pending r = bs @ rest \<Longrightarrow>
   fst (recv_frames (length fs) r) = Ok fs \<and> pending (snd (recv_frames (length fs) r)) = rest \<and>
   rd_err (snd (recv_frames (length fs) r)) = rd_err r"
proof (induction fs arbitrary: bs r)
  case (Cons f fs)
  then obtain b bs' where b: "Frame_Encode f = Ok b" "encode_seq Frame_Encode fs = Ok bs'" "bs = b @ bs'"
    by (auto simp: outcome_simps)
  then have "Decode (pending r) = Ok (f, length b)"
    using Cons.prems frame.dec_enc_append [of f b "bs' @ rest"] by simp
  note d = readFrame_Ok [OF this]
  obtain r1 where r1: "readFrame r = (Ok f, r1)" using d(1) by (cases "readFrame r") auto
  have "pending r1 = bs' @ rest" "rd_err r1 = rd_err r" using d(2,3) r1 b Cons.prems(3) by simp_all
  with Cons.IH [OF _ b(2), of r1] Cons.prems(1)
  have IH: "fst (recv_frames (length fs) r1) = Ok fs" "pending (snd (recv_frames (length fs) r1)) = rest"
      "rd_err (snd (recv_frames (length fs) r1)) = rd_err r" by simp_all
  then show ?case using r1
    by (cases "recv_frames (length fs) r1") (simp add: rbind_def rreturn_def)
qed simp

text \<open>
  C24 (delivery).  Frames written to a stream one after another are received by the other
  side as the same frames in the same order, however the transport cuts the bytes, and the
  next receive reports the stream's final error.
\<close>

theorem frames_delivered:
  assumes "list_all Frame_wf fs" "encode_seq Frame_Encode fs = Ok bs" "concat (rd_chunks r) = bs"
  shows "fst (recv_frames (length fs) r) = Ok fs \<and>
         fst (readFrame (snd (recv_frames (length fs) r))) = Err (rd_err r)"
  using recv_frames_encoded [OF assms(1,2), of r "[]"] assms(3) readFrame_end by (simp add: pending_def)

theorem frames_delivered_witness:
  "fst (recv_frames 1 \<lparr>rd_chunks = [[3], [0, 0x2a], [1, 9]], rd_err = EOF, rd_joined = True\<rparr>) =
     Ok [\<lparr>f_Type = 3, f_Flags = 0, f_OpID = 42, f_Payload = [9]\<rparr>]"
proof -
  let ?f = "\<lparr>f_Type = 3, f_Flags = 0, f_OpID = 42, f_Payload = [9]\<rparr>"
  have "encode_seq Frame_Encode [?f] = Ok [3, 0, 0x2a, 1, 9]"
    by (simp add: Frame_Encode_def Frame_AppendEncode_def AppendVarint_def MaxVarint_def)
  then show ?thesis
    using frames_delivered [of "[?f]" "[3, 0, 0x2a, 1, 9]" "\<lparr>rd_chunks = [[3], [0, 0x2a], [1, 9]], rd_err = EOF, rd_joined = True\<rparr>"]
    by (simp add: Frame_wf_def MaxVarint_def)
qed

end
