(* ===== verification/Handshake.thy ===== *)
theory Handshake imports Capability Verifier Stream_IO begin

text \<open>
  \<^verbatim>\<open>handshake.go\<close>: the HELLO payload, its signature, and the exchange that both sides run on
  the control stream; with the did:key signer of \<^verbatim>\<open>identity.go\<close> and the connection record of
  \<^verbatim>\<open>conn.go\<close>.

  What a handshake takes from its surroundings is the record \<open>env\<close>: the network, the Ed25519
  functions, the key and the nonce drawn from the random source, the time at which the
  HELLO is signed and the clock reading of the verifier.  The verifier behind the pointer
  of a \<^verbatim>\<open>NodeConfig\<close> is shared state, so a handshake returns it updated.
\<close>

section \<open>Versions, configuration and state\<close>

record Version =
  ver_Major :: u64
  ver_Minor :: u64

definition CurrentVersion :: Version where
  "CurrentVersion = \<lparr>ver_Major = 0, ver_Minor = 2\<rparr>"

text \<open>The verb \<^verbatim>\<open>%d\<close> of \<^verbatim>\<open>fmt\<close> on a \<^verbatim>\<open>uint64\<close>.\<close>

definition fmt_d :: "u64 \<Rightarrow> string" where
  "fmt_d v = (if v = 0 then ''0'' else map (\<lambda>d. char_of (48 + d)) (digits 10 (unat v)))"

definition Version_String :: "Version \<Rightarrow> string" where
  "Version_String v = fmt_d (ver_Major v) @ ''.'' @ fmt_d (ver_Minor v)"

text \<open>The interface \<^verbatim>\<open>Signer\<close> as the record of its methods.\<close>

record Signer =
  sg_DID :: string
  sg_VMID :: string
  sg_Sign :: "bytes \<Rightarrow> bytes"

record NodeConfig =
  nc_Signer :: "Signer option"
  nc_Verifier :: "Verifier option"
  nc_Capabilities :: "Capability list"

record HandshakeState =
  hs_PeerNodeID :: string
  hs_NegotiatedMinor :: u64
  hs_ActiveCapabilities :: "Capability list"

record env =
  e_net :: network
  e_public :: "bytes \<Rightarrow> bytes"
  e_sign :: "bytes \<Rightarrow> bytes \<Rightarrow> bytes"
  e_verify :: "bytes \<Rightarrow> bytes \<Rightarrow> bytes \<Rightarrow> bool"
  e_keygen :: "bytes outcome"
  e_nonce :: "bytes outcome"
  e_now :: int
  e_clock :: int

definition NewEd25519DIDKeySigner :: "env \<Rightarrow> bytes \<Rightarrow> Signer outcome" where
  "NewEd25519DIDKeySigner env priv =
     (let pub = e_public env priv; did = MakeDIDKey pub in
      obind (DIDKeyVMID did) (\<lambda>vmid.
      Ok \<lparr>sg_DID = did, sg_VMID = vmid, sg_Sign = e_sign env priv\<rparr>))"

definition ephemeralSigner :: "env \<Rightarrow> Signer outcome" where
  "ephemeralSigner env =
     obind (on_err (Wrap ''aire: ephemeral signer'') (e_keygen env)) (NewEd25519DIDKeySigner env)"

section \<open>The HELLO payload\<close>

fun append_caps :: "bytes \<Rightarrow> Capability list \<Rightarrow> bytes outcome" where
  "append_caps buf [] = Ok buf"
| "append_caps buf (c # cs) =
     obind (appendString buf (cap_Name c)) (\<lambda>buf.
     obind (AppendVarint buf (cap_Version c)) (\<lambda>buf.
     let buf = (if cap_Required c then buf @ [0x01] else buf @ [0x00]) in
     append_caps buf cs))"

definition encodeHelloInner :: "Version \<Rightarrow> string \<Rightarrow> Capability list \<Rightarrow> bytes outcome" where
  "encodeHelloInner ver nodeID caps =
     obind (AppendVarint [] (ver_Major ver)) (\<lambda>buf.
     obind (AppendVarint buf (ver_Minor ver)) (\<lambda>buf.
     obind (appendString buf nodeID) (\<lambda>buf.
     obind (AppendVarint buf (word_of_nat (length caps))) (\<lambda>buf.
     append_caps buf caps))))"

definition buildSignedHello :: "Signer \<Rightarrow> Capability list \<Rightarrow> bytes \<Rightarrow> int \<Rightarrow> bytes outcome" where
  "buildSignedHello signer caps nonce signedAt =
     obind (encodeHelloInner CurrentVersion (sg_DID signer) caps) (\<lambda>inner.
     let block = \<lparr>sb_Algorithm = SigAlgEd25519, sb_VMID = sg_VMID signer, sb_Nonce = nonce,
                  sb_TimestampMS = Time_UnixMilli signedAt, sb_Signature = []\<rparr> in
     obind (signedMessageBytes FrameHello inner block) (\<lambda>msg.
     let block = block\<lparr>sb_Signature := sg_Sign signer msg\<rparr> in
     obind (SignatureBlock_Encode block) (\<lambda>b. Ok (inner @ b))))"

text \<open>
  \<^verbatim>\<open>make([]Capability, 0, n)\<close> panics when \<open>n\<close> elements of 32 bytes exceed the address space a
  64-bit runtime can allocate from.
\<close>

definition maxAlloc :: nat where
  "maxAlloc = 2 ^ 48"

definition make_caps :: "u64 \<Rightarrow> Capability list outcome" where
  "make_caps n = (if unat n * 32 > maxAlloc then Panic else Ok [])"

definition cap_required :: "byte \<Rightarrow> bool outcome" where
  "cap_required b =
     (if b = 0x00 then Ok False
      else if b = 0x01 then Ok True
      else Err (Wrap ''cap.required: invalid value'' ErrMalformedHello))"

fun caps_loop :: "nat \<Rightarrow> bytes \<Rightarrow> nat \<Rightarrow> Capability list \<Rightarrow> (Capability list \<times> nat) outcome" where
  "caps_loop 0 payload pos caps = Ok (caps, pos)"
| "caps_loop (Suc k) payload pos caps =
     obind (on_err (\<lambda>_. Wrap ''cap.name'' ErrMalformedHello) (from_pos pos payload readString)) (\<lambda>(name, n).
     let pos = pos + n in
     obind (on_err (\<lambda>_. Wrap ''cap.version'' ErrMalformedHello) (from_pos pos payload ReadVarint)) (\<lambda>(ver, n).
     let pos = pos + n in
     if pos \<ge> length payload then Err (Wrap ''cap.required: missing byte'' ErrMalformedHello)
     else
       obind (index pos payload) (\<lambda>b.
       obind (cap_required b) (\<lambda>req.
       caps_loop k payload (pos + 1) (caps @ [\<lparr>cap_Name = name, cap_Version = ver, cap_Required = req\<rparr>])))))"

definition decodeHelloPayloadV02 :: "bytes \<Rightarrow> (Version \<times> string \<times> Capability list \<times> bytes) outcome" where
  "decodeHelloPayloadV02 payload =
     (let pos = 0 in
      obind (on_err (\<lambda>_. Wrap ''VerMajor'' ErrMalformedHello) (from_pos pos payload ReadVarint)) (\<lambda>(major, n).
      let pos = pos + n in
      obind (on_err (\<lambda>_. Wrap ''VerMinor'' ErrMalformedHello) (from_pos pos payload ReadVarint)) (\<lambda>(minor, n).
      let pos = pos + n in
      obind (on_err (\<lambda>_. Wrap ''NodeID'' ErrMalformedHello) (from_pos pos payload readString)) (\<lambda>(nodeID, n).
      let pos = pos + n in
      obind (on_err (\<lambda>_. Wrap ''NumCaps'' ErrMalformedHello) (from_pos pos payload ReadVarint)) (\<lambda>(numCaps, n).
      let pos = pos + n in
      obind (make_caps numCaps) (\<lambda>caps.
      obind (caps_loop (unat numCaps) payload pos caps) (\<lambda>(caps, pos).
      obind (slice_from pos payload) (\<lambda>trailing.
      Ok (\<lparr>ver_Major = major, ver_Minor = minor\<rparr>, nodeID, caps, trailing)))))))))"

section \<open>The exchange\<close>

text \<open>
  The checks on the peer's HELLO, from the received frame to the negotiated state, with the
  verifier they run on.
\<close>

definition check_hello_signature ::
  "env \<Rightarrow> Verifier \<Rightarrow> bytes \<Rightarrow> string \<Rightarrow> bytes \<Rightarrow> unit outcome \<times> Verifier" where
  "check_hello_signature env v payload peerNodeID trailing =
     (if \<not> HasPrefix peerNodeID ''did:'' then (Err (Wrap ''NodeID is not a DID'' ErrMalformedHello), v)
      else if length trailing = 0 then (Err (Wrap ''v0.2 HELLO missing signature block'' ErrBadSignature), v)
      else case on_err (\<lambda>_. Wrap ''signature block'' ErrMalformedHello) (DecodeSignatureBlock trailing) of
        Err e \<Rightarrow> (Err e, v)
      | Panic \<Rightarrow> (Panic, v)
      | Ok (block, _) \<Rightarrow>
          let peerDID = fst (Cut (sb_VMID block) CHR ''#'') in
          if peerDID \<noteq> peerNodeID then (Err (Wrap ''VMID DID != NodeID'' ErrKeyMismatch), v)
          else
            let innerLen = length payload - length trailing in
            (case obind (subslice 0 innerLen payload) (\<lambda>inner. signedMessageBytes FrameHello inner block) of
               Err e \<Rightarrow> (Err e, v)
             | Panic \<Rightarrow> (Panic, v)
             | Ok signedMsg \<Rightarrow> Verify (e_net env) (e_verify env) (e_clock env) v block signedMsg))"

definition check_hello ::
  "env \<Rightarrow> Verifier \<Rightarrow> Capability list \<Rightarrow> Frame \<Rightarrow> HandshakeState outcome \<times> Verifier" where
  "check_hello env v caps f =
     (if f_Type f \<noteq> FrameHello then (Err (Wrap ''expected HELLO'' ErrProtocolViolation), v)
      else if f_OpID f \<noteq> 0 then (Err (Wrap ''HELLO had non-zero OpID'' ErrProtocolViolation), v)
      else case decodeHelloPayloadV02 (f_Payload f) of
        Err e \<Rightarrow> (Err e, v)
      | Panic \<Rightarrow> (Panic, v)
      | Ok (peerVer, peerNodeID, peerCaps, trailing) \<Rightarrow>
          if ver_Major peerVer \<noteq> ver_Major CurrentVersion then (Err (Wrap ''peer major'' ErrIncompatibleVersion), v)
          else
            let negotiatedMinor =
              (if ver_Minor peerVer < ver_Minor CurrentVersion then ver_Minor peerVer else ver_Minor CurrentVersion)
            in
            case (if ver_Minor peerVer \<ge> 2
                  then check_hello_signature env v (f_Payload f) peerNodeID trailing
                  else (Ok (), v)) of
              (Err e, v) \<Rightarrow> (Err e, v)
            | (Panic, v) \<Rightarrow> (Panic, v)
            | (Ok _, v) \<Rightarrow>
                (obind (NegotiateCapabilities caps peerCaps) (\<lambda>active.
                 Ok \<lparr>hs_PeerNodeID = peerNodeID, hs_NegotiatedMinor = negotiatedMinor,
                     hs_ActiveCapabilities = active\<rparr>), v))"

definition runHandshake ::
  "env \<Rightarrow> Stream \<Rightarrow> NodeConfig \<Rightarrow> HandshakeState outcome \<times> Stream \<times> Verifier option" where
  "runHandshake env ctrl cfg =
     (let verifier = (case nc_Verifier cfg of None \<Rightarrow> NewVerifier | Some v \<Rightarrow> v);
          shared = (\<lambda>v. if nc_Verifier cfg = None then None else Some v);
          hello =
            obind (case nc_Signer cfg of None \<Rightarrow> ephemeralSigner env | Some s \<Rightarrow> Ok s) (\<lambda>signer.
            obind (on_err (Wrap ''aire: handshake: nonce'') (e_nonce env)) (\<lambda>nonce.
            buildSignedHello signer (nc_Capabilities cfg) nonce (e_now env)))
      in case hello of
        Err e \<Rightarrow> (Err e, ctrl, nc_Verifier cfg)
      | Panic \<Rightarrow> (Panic, ctrl, nc_Verifier cfg)
      | Ok payload \<Rightarrow>
          (case Stream_SendFrame ctrl \<lparr>f_Type = FrameHello, f_Flags = 0, f_OpID = 0, f_Payload = payload\<rparr> of
             (Err e, ctrl) \<Rightarrow> (Err (Wrap ''aire: handshake: send HELLO'' e), ctrl, nc_Verifier cfg)
           | (Panic, ctrl) \<Rightarrow> (Panic, ctrl, nc_Verifier cfg)
           | (Ok _, ctrl) \<Rightarrow>
               (case Stream_RecvFrame ctrl of
                  (Err e, ctrl) \<Rightarrow> (Err (Wrap ''aire: handshake: recv first frame'' e), ctrl, nc_Verifier cfg)
                | (Panic, ctrl) \<Rightarrow> (Panic, ctrl, nc_Verifier cfg)
                | (Ok f, ctrl) \<Rightarrow>
                    (case check_hello env verifier (nc_Capabilities cfg) f of
                       (res, v) \<Rightarrow> (res, ctrl, shared v)))))"

section \<open>Connections\<close>

text \<open>
  The QUIC connection underneath answers the \<open>i\<close>-th request to open or accept a stream with
  a stream or an error; the record counts the requests made and whether the connection was
  closed.
\<close>

record QConn =
  q_open :: "nat \<Rightarrow> Stream outcome"
  q_accept :: "nat \<Rightarrow> Stream outcome"
  q_opened :: nat
  q_accepted :: nat
  q_closed :: bool

record Conn =
  c_qc :: QConn
  c_isClient :: bool
  c_ctrl :: "Stream option"
  c_state :: "HandshakeState option"

definition OpenStreamSync :: "Conn \<Rightarrow> Stream outcome \<times> Conn" where
  "OpenStreamSync c = (q_open (c_qc c) (q_opened (c_qc c)), c\<lparr>c_qc := (c_qc c)\<lparr>q_opened := Suc (q_opened (c_qc c))\<rparr>\<rparr>)"

definition AcceptStream_q :: "Conn \<Rightarrow> Stream outcome \<times> Conn" where
  "AcceptStream_q c =
     (q_accept (c_qc c) (q_accepted (c_qc c)), c\<lparr>c_qc := (c_qc c)\<lparr>q_accepted := Suc (q_accepted (c_qc c))\<rparr>\<rparr>)"

definition Conn_OpenStream :: "Conn \<Rightarrow> Stream outcome \<times> Conn" where
  "Conn_OpenStream c = (case OpenStreamSync c of (res, c) \<Rightarrow> (on_err (Wrap ''aire: OpenStream'') res, c))"

definition Conn_AcceptStream :: "Conn \<Rightarrow> Stream outcome \<times> Conn" where
  "Conn_AcceptStream c = (case AcceptStream_q c of (res, c) \<Rightarrow> (on_err (Wrap ''aire: AcceptStream'') res, c))"

definition Conn_Close :: "Conn \<Rightarrow> Conn" where
  "Conn_Close c = c\<lparr>c_qc := (c_qc c)\<lparr>q_closed := True\<rparr>\<rparr>"

definition Conn_Handshake ::
  "env \<Rightarrow> Conn \<Rightarrow> NodeConfig \<Rightarrow> HandshakeState outcome \<times> Conn \<times> Verifier option" where
  "Conn_Handshake env c cfg =
     (if c_state c \<noteq> None then (Err (Errorf ''aire: handshake already completed''), c, nc_Verifier cfg)
      else
        (case (if c_isClient c then OpenStreamSync c else AcceptStream_q c) of
           (Err e, c) \<Rightarrow> (Err (Wrap ''aire: handshake: control stream'' e), Conn_Close c, nc_Verifier cfg)
         | (Panic, c) \<Rightarrow> (Panic, c, nc_Verifier cfg)
         | (Ok qs, c) \<Rightarrow>
             (case runHandshake env qs cfg of
                (Ok state, ctrl, v) \<Rightarrow> (Ok state, c\<lparr>c_ctrl := Some ctrl, c_state := Some state\<rparr>, v)
              | (Err e, ctrl, v) \<Rightarrow> (Err e, Conn_Close (c\<lparr>c_ctrl := Some ctrl\<rparr>), v)
              | (Panic, ctrl, v) \<Rightarrow> (Panic, c\<lparr>c_ctrl := Some ctrl\<rparr>, v))))"

definition Conn_State :: "Conn \<Rightarrow> HandshakeState option" where
  "Conn_State c = c_state c"

section \<open>The payload codec\<close>

definition cap_wf :: "Capability \<Rightarrow> bool" where
  "cap_wf c \<longleftrightarrow> length (cap_Name c) < 2 ^ 62 \<and> cap_Version c \<le> MaxVarint"

definition wire_cap :: "Capability \<Rightarrow> bytes" where
  "wire_cap c = wire_string (cap_Name c) @ varint (cap_Version c) @ [if cap_Required c then 1 else 0]"

lemma length_wire_cap: "length (wire_cap c) = Suc (length (wire_string (cap_Name c)) + length (varint (cap_Version c)))"
  by (simp add: wire_cap_def)

definition hello_wf :: "Version \<Rightarrow> string \<Rightarrow> Capability list \<Rightarrow> bool" where
  "hello_wf ver nodeID caps \<longleftrightarrow> ver_Major ver \<le> MaxVarint \<and> ver_Minor ver \<le> MaxVarint \<and> length nodeID < 2 ^ 62 \<and>
     length caps * 32 \<le> maxAlloc \<and> list_all cap_wf caps"

definition hello_inner :: "Version \<Rightarrow> string \<Rightarrow> Capability list \<Rightarrow> bytes" where
  "hello_inner ver nodeID caps =
     varint (ver_Major ver) @ varint (ver_Minor ver) @ wire_string nodeID @ varint (word_of_nat (length caps)) @
     concat (map wire_cap caps)"

lemma append_caps_Ok: "list_all cap_wf caps \<Longrightarrow> append_caps buf caps = Ok (buf @ concat (map wire_cap caps))"
  by (induction caps arbitrary: buf) (auto simp: cap_wf_def wire_cap_def wire_simps Let_def)

lemma encodeHelloInner_Ok: "hello_wf ver nodeID caps \<Longrightarrow> encodeHelloInner ver nodeID caps = Ok (hello_inner ver nodeID caps)"
  by (simp add: hello_wf_def encodeHelloInner_def hello_inner_def append_caps_Ok wire_simps maxAlloc_def)

lemma caps_loop_wire:
  "list_all cap_wf caps \<Longrightarrow> payload = pre @ concat (map wire_cap caps) @ rest \<Longrightarrow>
   caps_loop (length caps) payload (length pre) acc = Ok (acc @ caps, length pre + length (concat (map wire_cap caps)))"
proof (induction caps arbitrary: pre acc)
  case (Cons c cs)
  let ?name = "wire_string (cap_Name c)" and ?ver = "varint (cap_Version c)"
  let ?req = "if cap_Required c then 1 else 0 :: byte"
  let ?rest = "concat (map wire_cap cs) @ rest"
  have w: "length (cap_Name c) < 2 ^ 62" "cap_Version c \<le> MaxVarint" "list_all cap_wf cs"
    using Cons.prems(1) by (simp_all add: cap_wf_def [of c])
  have p: "payload = pre @ ?name @ ?ver @ ?req # ?rest" using Cons.prems(2) by (simp add: wire_cap_def [of c])
  have "from_pos (length pre) payload readString = Ok (cap_Name c, length ?name)"
    using w by (simp add: p from_pos_Ok readString_append)
  moreover have "from_pos (length pre + length ?name) payload ReadVarint = Ok (cap_Version c, length ?ver)"
    using w by (simp add: p from_pos_Ok ReadVarint_append)
  moreover have "length pre + length ?name + length ?ver < length payload"
      "cap_required (payload ! (length pre + length ?name + length ?ver)) = Ok (cap_Required c)"
    by (simp_all add: p nth_append cap_required_def)
  moreover have "caps_loop (length cs) payload (length (pre @ wire_cap c)) (acc @ [c]) =
      Ok ((acc @ [c]) @ cs, length (pre @ wire_cap c) + length (concat (map wire_cap cs)))"
    using w(3) Cons.prems(2) by (intro Cons.IH) simp_all
  ultimately show ?case
    by (cases c) (simp add: Let_def length_wire_cap add.assoc)
qed simp

lemma hello_roundtrip:
  assumes "hello_wf ver nodeID caps"
  shows "decodeHelloPayloadV02 (hello_inner ver nodeID caps @ trailing) = Ok (ver, nodeID, caps, trailing)"
proof -
  let ?a = "varint (ver_Major ver)" and ?b = "varint (ver_Minor ver)" and ?s = "wire_string nodeID"
  let ?n = "word_of_nat (length caps) :: u64"
  let ?pre = "?a @ ?b @ ?s @ varint ?n"
  let ?p = "hello_inner ver nodeID caps @ trailing"
  have w: "ver_Major ver \<le> MaxVarint" "ver_Minor ver \<le> MaxVarint" "length nodeID < 2 ^ 62" "list_all cap_wf caps"
      "length caps < 2 ^ 62" "length caps * 32 \<le> maxAlloc"
    using assms by (auto simp: hello_wf_def maxAlloc_def)
  have p: "?p = ?pre @ concat (map wire_cap caps) @ trailing" by (simp add: hello_inner_def)
  have n: "unat ?n = length caps" using w(5) by (rule unat_length)
  have "from_pos 0 ?p ReadVarint = Ok (ver_Major ver, length ?a)"
    "from_pos (length ?a) ?p ReadVarint = Ok (ver_Minor ver, length ?b)"
    "from_pos (length ?a + length ?b) ?p readString = Ok (nodeID, length ?s)"
    "from_pos (length ?a + length ?b + length ?s) ?p ReadVarint = Ok (?n, length (varint ?n))"
    using w unfolding p by (simp_all add: from_pos_Ok ReadVarint_append readString_append length_le_MaxVarint)
  moreover have "caps_loop (length caps) ?p (length ?pre) [] =
      Ok ([] @ caps, length ?pre + length (concat (map wire_cap caps)))"
    using w(4) p by (rule caps_loop_wire)
  then have "caps_loop (length caps) ?p (length ?a + length ?b + length ?s + length (varint ?n)) [] =
      Ok (caps, length (hello_inner ver nodeID caps))"
    by (simp add: add.assoc hello_inner_def)
  moreover have "make_caps ?n = Ok []" using w(6) n by (simp add: make_caps_def)
  ultimately show ?thesis using n by (simp add: decodeHelloPayloadV02_def)
qed

lemma caps_loop_spec:
  assumes "caps_loop k payload pos acc = Ok (caps, pos')" "pos \<le> length payload"
  shows "pos \<le> pos' \<and> pos' \<le> length payload \<and>
    (\<forall>data. take pos' data = take pos' payload \<longrightarrow> caps_loop k data pos acc = Ok (caps, pos'))"
  using assms
proof (induction k arbitrary: pos acc)
  case (Suc k)
  then obtain name n ver m req where s:
      "from_pos pos payload readString = Ok (name, n)" "from_pos (pos + n) payload ReadVarint = Ok (ver, m)"
      "pos + n + m < length payload"
      "cap_required (payload ! (pos + n + m)) = Ok req"
      "caps_loop k payload (pos + n + m + 1) (acc @ [\<lparr>cap_Name = name, cap_Version = ver, cap_Required = req\<rparr>]) = Ok (caps, pos')"
    by (auto simp: obind_eq_Ok_iff Let_def index_def not_le split: if_splits)
  have IH: "pos + n + m + 1 \<le> pos'" "pos' \<le> length payload"
      "\<And>data. take pos' data = take pos' payload \<Longrightarrow>
         caps_loop k data (pos + n + m + 1) (acc @ [\<lparr>cap_Name = name, cap_Version = ver, cap_Required = req\<rparr>]) = Ok (caps, pos')"
    using Suc.IH [OF s(5)] s(3) by auto
  have "caps_loop (Suc k) data pos acc = Ok (caps, pos')" if d: "take pos' data = take pos' payload" for data
  proof -
    have "from_pos pos data readString = Ok (name, n)" "from_pos (pos + n) data ReadVarint = Ok (ver, m)"
      using IH(1,2) d by (auto intro!: wstring.from_pos_agree [OF s(1), of pos'] varint.from_pos_agree [OF s(2), of pos'])
    moreover have "data ! (pos + n + m) = payload ! (pos + n + m)"
      using IH(1) d by (metis less_add_one less_le_trans nth_take)
    moreover have "pos + n + m < length data"
      using IH(1,2) d by (metis add_leD1 length_take less_add_one less_le_trans min.absorb2 min_less_iff_conj)
    ultimately show ?thesis using s(4) IH(3) [OF d] by (simp add: Let_def index_def)
  qed
  then show ?case using IH(1,2) by simp
qed simp

text \<open>The fields before the capability array, and the end of the array.\<close>

definition hello_head :: "bytes \<Rightarrow> Version \<Rightarrow> string \<Rightarrow> u64 \<Rightarrow> nat \<Rightarrow> bool" where
  "hello_head payload ver nodeID num pos \<longleftrightarrow>
     (\<exists>a b c d. from_pos 0 payload ReadVarint = Ok (ver_Major ver, a) \<and>
        from_pos a payload ReadVarint = Ok (ver_Minor ver, b) \<and>
        from_pos (a + b) payload readString = Ok (nodeID, c) \<and>
        from_pos (a + b + c) payload ReadVarint = Ok (num, d) \<and> pos = a + b + c + d)"

lemma hello_head_bound: "hello_head payload ver nodeID num pos \<Longrightarrow> pos \<le> length payload"
  by (auto simp: hello_head_def varint.from_pos_Ok_iff)

lemma hello_head_agree:
  assumes "hello_head payload ver nodeID num pos" "pos \<le> k" "k \<le> length payload" "take k data = take k payload"
  shows "hello_head data ver nodeID num pos"
proof -
  obtain a b c d where h: "from_pos 0 payload ReadVarint = Ok (ver_Major ver, a)"
      "from_pos a payload ReadVarint = Ok (ver_Minor ver, b)" "from_pos (a + b) payload readString = Ok (nodeID, c)"
      "from_pos (a + b + c) payload ReadVarint = Ok (num, d)" "pos = a + b + c + d"
    using assms(1) unfolding hello_head_def by blast
  have "from_pos 0 data ReadVarint = Ok (ver_Major ver, a)"
    using h(5) assms by (intro varint.from_pos_agree [OF h(1), of k]) auto
  moreover have "from_pos a data ReadVarint = Ok (ver_Minor ver, b)"
    using h(5) assms by (intro varint.from_pos_agree [OF h(2), of k]) auto
  moreover have "from_pos (a + b) data readString = Ok (nodeID, c)"
    using h(5) assms by (intro wstring.from_pos_agree [OF h(3), of k]) auto
  moreover have "from_pos (a + b + c) data ReadVarint = Ok (num, d)"
    using h(5) assms by (intro varint.from_pos_agree [OF h(4), of k]) auto
  ultimately show ?thesis using h(5) unfolding hello_head_def by blast
qed

lemma decodeHello_cases:
  "(\<exists>ver nodeID num pos. hello_head payload ver nodeID num pos \<and>
      decodeHelloPayloadV02 payload =
        obind (make_caps num) (\<lambda>caps. obind (caps_loop (unat num) payload pos caps) (\<lambda>(caps, pos).
        obind (slice_from pos payload) (\<lambda>trailing. Ok (ver, nodeID, caps, trailing))))) \<or>
   (\<nexists>ver nodeID num pos. hello_head payload ver nodeID num pos) \<and>
   (\<exists>s. decodeHelloPayloadV02 payload = Err (Wrap s ErrMalformedHello))"
proof (cases "from_pos 0 payload ReadVarint")
  case (Ok r1)
  then obtain major a where 1: "from_pos 0 payload ReadVarint = Ok (major, a)" by (cases r1) auto
  then have a: "a \<le> length payload" by (simp add: varint.from_pos_Ok_iff)
  show ?thesis
  proof (cases "from_pos a payload ReadVarint")
    case (Ok r2)
    then obtain minor b where 2: "from_pos a payload ReadVarint = Ok (minor, b)" by (cases r2) auto
    then have b: "a + b \<le> length payload" by (simp add: varint.from_pos_Ok_iff)
    show ?thesis
    proof (cases "from_pos (a + b) payload readString")
      case (Ok r3)
      then obtain nodeID c where 3: "from_pos (a + b) payload readString = Ok (nodeID, c)" by (cases r3) auto
      then have c: "a + b + c \<le> length payload" by (simp add: wstring.from_pos_Ok_iff)
      show ?thesis
      proof (cases "from_pos (a + b + c) payload ReadVarint")
        case (Ok r4)
        then obtain num d where 4: "from_pos (a + b + c) payload ReadVarint = Ok (num, d)" by (cases r4) auto
        have "hello_head payload \<lparr>ver_Major = major, ver_Minor = minor\<rparr> nodeID num (a + b + c + d)"
          using 1 2 3 4 by (auto simp: hello_head_def)
        then show ?thesis using 1 2 3 4
          by (intro disjI1 exI [of _ "\<lparr>ver_Major = major, ver_Minor = minor\<rparr>"] exI [of _ nodeID] exI [of _ num]
              exI [of _ "a + b + c + d"]) (simp add: decodeHelloPayloadV02_def)
      qed (use 1 2 3 c in \<open>auto simp: decodeHelloPayloadV02_def hello_head_def varint.from_pos_no_panic\<close>)
    qed (use 1 2 b in \<open>auto simp: decodeHelloPayloadV02_def hello_head_def wstring.from_pos_no_panic\<close>)
  qed (use 1 a in \<open>auto simp: decodeHelloPayloadV02_def hello_head_def varint.from_pos_no_panic\<close>)
qed (auto simp: decodeHelloPayloadV02_def hello_head_def varint.from_pos_no_panic)

lemma hello_head_unique:
  "hello_head p ver n num pos \<Longrightarrow> hello_head p ver' n' num' pos' \<Longrightarrow> ver = ver' \<and> n = n' \<and> num = num' \<and> pos = pos'"
  by (cases ver; cases ver') (auto simp: hello_head_def)

lemma decodeHello_head:
  assumes "hello_head payload ver nodeID num pos"
  shows "decodeHelloPayloadV02 payload =
    obind (make_caps num) (\<lambda>caps. obind (caps_loop (unat num) payload pos caps) (\<lambda>(caps, pos).
    obind (slice_from pos payload) (\<lambda>trailing. Ok (ver, nodeID, caps, trailing))))"
  using decodeHello_cases [of payload] hello_head_unique [OF assms] assms by metis

lemma caps_loop_no_panic: "pos \<le> length payload \<Longrightarrow> caps_loop k payload pos acc \<noteq> Panic"
proof (induction k arbitrary: pos acc)
  case (Suc k)
  then show ?case
    by (auto simp: obind_eq_Panic_iff Let_def index_def cap_required_def not_le wstring.from_pos_no_panic
        varint.from_pos_no_panic dest: wstring.from_pos_Ok_iff [THEN iffD1] varint.from_pos_Ok_iff [THEN iffD1]
        split: if_splits)
qed simp

lemma caps_loop_wf:
  "caps_loop k payload pos acc = Ok (caps, pos') \<Longrightarrow> list_all cap_wf acc \<Longrightarrow>
   list_all cap_wf caps \<and> length caps = length acc + k"
proof (induction k arbitrary: pos acc)
  case (Suc k)
  then obtain name n ver m req where s:
      "from_pos pos payload readString = Ok (name, n)" "from_pos (pos + n) payload ReadVarint = Ok (ver, m)"
      "caps_loop k payload (pos + n + m + 1) (acc @ [\<lparr>cap_Name = name, cap_Version = ver, cap_Required = req\<rparr>]) = Ok (caps, pos')"
    by (auto simp: obind_eq_Ok_iff Let_def split: if_splits)
  have "cap_wf \<lparr>cap_Name = name, cap_Version = ver, cap_Required = req\<rparr>"
    using s(1,2) by (auto simp: cap_wf_def wstring.from_pos_Ok_iff varint.from_pos_Ok_iff
        dest: readString_length_varint ReadVarint_le_MaxVarint)
  then show ?case using Suc.IH [OF s(3)] Suc.prems(2) by simp
qed simp

lemma decodeHello_wf:
  assumes "decodeHelloPayloadV02 payload = Ok (ver, nodeID, caps, trailing)" shows "hello_wf ver nodeID caps"
proof -
  obtain ver' nodeID' num pos where h: "hello_head payload ver' nodeID' num pos"
    using decodeHello_cases [of payload] assms by auto
  have e: "ver' = ver" "nodeID' = nodeID" and l: "make_caps num = Ok []" "\<exists>pos'. caps_loop (unat num) payload pos [] = Ok (caps, pos')"
    using assms unfolding decodeHello_head [OF h] by (auto simp: obind_eq_Ok_iff make_caps_def split: if_splits)
  have "list_all cap_wf caps" "length caps = unat num" using l(2) caps_loop_wf by fastforce+
  moreover have "unat num * 32 \<le> maxAlloc" using l(1) by (simp add: make_caps_def split: if_splits)
  moreover have "ver_Major ver \<le> MaxVarint" "ver_Minor ver \<le> MaxVarint" "length nodeID < 2 ^ 62"
    using h unfolding e hello_head_def
    by (auto simp: wstring.from_pos_Ok_iff varint.from_pos_Ok_iff dest: readString_length_varint ReadVarint_le_MaxVarint)
  ultimately show ?thesis by (simp add: hello_wf_def)
qed

lemma decodeHello_split:
  assumes "decodeHelloPayloadV02 payload = Ok (ver, nodeID, caps, trailing)"
  obtains inner where "payload = inner @ trailing" "\<And>x. decodeHelloPayloadV02 (inner @ x) = Ok (ver, nodeID, caps, x)"
proof -
  obtain ver' nodeID' num pos where h: "hello_head payload ver' nodeID' num pos"
    using decodeHello_cases [of payload] assms by auto
  note d = decodeHello_head [OF h]
  obtain pos' where l: "make_caps num = Ok []" "caps_loop (unat num) payload pos [] = Ok (caps, pos')" "pos' \<le> length payload"
      "trailing = drop pos' payload" "ver' = ver" "nodeID' = nodeID"
    using assms unfolding d by (auto simp: obind_eq_Ok_iff make_caps_def slice_from_def split: if_splits)
  have s: "pos \<le> pos'" "\<And>data. take pos' data = take pos' payload \<Longrightarrow> caps_loop (unat num) data pos [] = Ok (caps, pos')"
    using caps_loop_spec [OF l(2) hello_head_bound [OF h]] by auto
  let ?inner = "take pos' payload"
  have "decodeHelloPayloadV02 (?inner @ x) = Ok (ver, nodeID, caps, x)" for x
  proof -
    have t: "take pos' (?inner @ x) = take pos' payload" "drop pos' (?inner @ x) = x" "pos' \<le> length (?inner @ x)"
      using l(3) by simp_all
    have "hello_head (?inner @ x) ver' nodeID' num pos" by (rule hello_head_agree [OF h s(1) l(3) t(1)])
    then show ?thesis using l s(2) [OF t(1)] t(2,3) by (simp add: decodeHello_head del: append_take_drop_id)
  qed
  then show ?thesis using that [of ?inner] l(4) by simp
qed

lemma decodeHello_panic_iff:
  "decodeHelloPayloadV02 payload = Panic \<longleftrightarrow>
   (\<exists>ver nodeID num pos. hello_head payload ver nodeID num pos \<and> unat num * 32 > maxAlloc)"
proof (cases "\<exists>ver nodeID num pos. hello_head payload ver nodeID num pos")
  case True
  then obtain ver nodeID num pos where h: "hello_head payload ver nodeID num pos" by blast
  have b: "pos \<le> length payload" by (rule hello_head_bound [OF h])
  have "decodeHelloPayloadV02 payload = Panic \<longleftrightarrow> unat num * 32 > maxAlloc"
  proof (cases "unat num * 32 > maxAlloc")
    case True
    then show ?thesis unfolding decodeHello_head [OF h] by (simp add: make_caps_def)
  next
    case False
    have "obind (caps_loop (unat num) payload pos []) (\<lambda>(caps, pos).
        obind (slice_from pos payload) (\<lambda>trailing. Ok (ver, nodeID, caps, trailing))) \<noteq> Panic"
      using caps_loop_no_panic [OF b, of "unat num" "[]"] caps_loop_spec [OF _ b, of "unat num" "[]"]
      by (cases "caps_loop (unat num) payload pos []") auto
    then show ?thesis using False unfolding decodeHello_head [OF h] by (simp add: make_caps_def)
  qed
  then show ?thesis using h hello_head_unique [OF h] by blast
next
  case False
  then show ?thesis using decodeHello_cases [of payload] by auto
qed

section \<open>Properties of the payload\<close>

text \<open>
  C14 (HELLO round trip).  A HELLO payload made from a version, a node id and capabilities
  decodes to exactly these, with whatever follows, the signature block, handed back.
\<close>

theorem hello_payload_roundtrip:
  assumes "ver_Major ver \<le> MaxVarint" "ver_Minor ver \<le> MaxVarint" "length nodeID < 2 ^ 62"
    and "length caps \<le> 2 ^ 43" "\<forall>c \<in> set caps. length (cap_Name c) < 2 ^ 62 \<and> cap_Version c \<le> MaxVarint"
  shows "\<exists>inner. encodeHelloInner ver nodeID caps = Ok inner \<and>
                 decodeHelloPayloadV02 (inner @ trailing) = Ok (ver, nodeID, caps, trailing)"
proof -
  have "hello_wf ver nodeID caps"
    using assms by (simp add: hello_wf_def maxAlloc_def cap_wf_def list_all_iff)
  then show ?thesis using encodeHelloInner_Ok hello_roundtrip by blast
qed

theorem hello_payload_roundtrip_witness:
  "\<exists>inner. encodeHelloInner CurrentVersion ''did:web:a'' [\<lparr>cap_Name = ''x/1'', cap_Version = 3, cap_Required = True\<rparr>] = Ok inner \<and>
     decodeHelloPayloadV02 (inner @ [7]) =
       Ok (CurrentVersion, ''did:web:a'', [\<lparr>cap_Name = ''x/1'', cap_Version = 3, cap_Required = True\<rparr>], [7])"
  by (rule hello_payload_roundtrip) (simp_all add: CurrentVersion_def MaxVarint_def)

text \<open>
  C36 (panic on a claimed capability count).  Decoding a HELLO panics exactly when its
  header reads and the number of capabilities it claims, at 32 bytes each, is beyond what
  the runtime can allocate; the count is never compared with the bytes that follow.  The
  payload is at most fifteen bytes long and needs no signature.
\<close>

theorem hello_decode_panics_iff:
  "(decodeHelloPayloadV02 payload = Panic \<longleftrightarrow>
      (\<exists>ver nodeID num pos. hello_head payload ver nodeID num pos \<and> unat num * 32 > 2 ^ 48)) \<and>
   (\<exists>payload. length payload < 16 \<and> decodeHelloPayloadV02 payload = Panic)"
proof
  let ?p = "[0, 2, 0, 0xFF, 0xFF, 0xFF, 0xFF, 0xFF, 0xFF, 0xFF, 0xFF] :: bytes"
  have "decodeHelloPayloadV02 ?p = Panic"
    by (simp add: decodeHelloPayloadV02_def from_pos_def ReadVarint_def readString_def make_caps_def maxAlloc_def
        subslice_def)
  then show "\<exists>payload. length payload < 16 \<and> decodeHelloPayloadV02 payload = Panic"
    by (intro exI [of _ ?p]) simp
qed (simp add: decodeHello_panic_iff maxAlloc_def)

section \<open>What a completed handshake has checked\<close>

definition verifier_of :: "NodeConfig \<Rightarrow> Verifier" where
  "verifier_of cfg = (case nc_Verifier cfg of None \<Rightarrow> NewVerifier | Some v \<Rightarrow> v)"

text \<open>
  \<open>signed_by env v nodeID inner block\<close>: the block is a fresh signature by the key of the DID
  \<open>nodeID\<close> over a HELLO with these inner bytes.
\<close>

definition signed_by :: "env \<Rightarrow> Verifier \<Rightarrow> string \<Rightarrow> bytes \<Rightarrow> SignatureBlock \<Rightarrow> bool" where
  "signed_by env v nodeID inner block \<longleftrightarrow>
     signing_did block = nodeID \<and> sb_Algorithm block = SigAlgEd25519 \<and>
     in_window v (e_clock env) (sb_TimestampMS block) \<and> seen_at v nodeID (sb_Nonce block) = None \<and>
     (\<exists>pub msg. ResolveKey (e_net env) v (sb_VMID block) = Ok pub \<and>
        signedMessageBytes FrameHello inner block = Ok msg \<and> e_verify env pub msg (sb_Signature block))"

lemma check_hello_signature_Ok:
  assumes "payload = inner @ trailing"
  shows "fst (check_hello_signature env v payload nodeID trailing) = Ok () \<longleftrightarrow>
    HasPrefix nodeID ''did:'' \<and> (\<exists>block n. DecodeSignatureBlock trailing = Ok (block, n) \<and> signed_by env v nodeID inner block)"
    (is "_ \<longleftrightarrow> ?r")
proof (cases "HasPrefix nodeID ''did:''")
  case True
  then have ne: "nodeID \<noteq> ''''" by (auto simp: HasPrefix_def)
  show ?thesis
  proof (cases "DecodeSignatureBlock trailing")
    case (Ok r)
    then obtain block n where d: "DecodeSignatureBlock trailing = Ok (block, n)" by (cases r) auto
    then have t: "trailing \<noteq> []" by (rule sigblock.dec_nonempty)
    have "length (sb_VMID block) < 2 ^ 62" using DecodeSignatureBlock_wf [OF d] by (simp add: SignatureBlock_wf_def)
    then obtain msg where m: "signedMessageBytes FrameHello inner block = Ok msg"
      by (simp add: signedMessageBytes_def metaBytes_Ok)
    have "fst (check_hello_signature env v payload nodeID trailing) = Ok () \<longleftrightarrow>
        signing_did block = nodeID \<and> fst (Verify (e_net env) (e_verify env) (e_clock env) v block msg) = Ok ()"
      using True t d m assms by (simp add: check_hello_signature_def signing_did_def)
    then show ?thesis using True d m ne by (auto simp: Verify_Ok_iff records_def signed_by_def)
  next
    case (Err e)
    then show ?thesis using True by (simp add: check_hello_signature_def)
  next
    case Panic
    then show ?thesis using DecodeSignatureBlock_no_panic by blast
  qed
qed (simp add: check_hello_signature_def)

definition hello_accepted :: "env \<Rightarrow> Verifier \<Rightarrow> Capability list \<Rightarrow> Frame \<Rightarrow> HandshakeState \<Rightarrow> bool" where
  "hello_accepted env v caps f st \<longleftrightarrow>
     f_Type f = FrameHello \<and> f_OpID f = 0 \<and>
     (\<exists>ver peerCaps inner trailing.
        f_Payload f = inner @ trailing \<and>
        decodeHelloPayloadV02 (f_Payload f) = Ok (ver, hs_PeerNodeID st, peerCaps, trailing) \<and>
        ver_Major ver = ver_Major CurrentVersion \<and>
        hs_NegotiatedMinor st = min (ver_Minor ver) (ver_Minor CurrentVersion) \<and>
        NegotiateCapabilities caps peerCaps = Ok (hs_ActiveCapabilities st) \<and>
        (ver_Minor ver \<ge> 2 \<longrightarrow> HasPrefix (hs_PeerNodeID st) ''did:'' \<and>
           (\<exists>block n. DecodeSignatureBlock trailing = Ok (block, n) \<and>
                      signed_by env v (hs_PeerNodeID st) inner block)))"

lemma check_hello_Ok_iff: "fst (check_hello env v caps f) = Ok st \<longleftrightarrow> hello_accepted env v caps f st"
proof (cases "f_Type f = FrameHello \<and> f_OpID f = 0")
  case True
  show ?thesis
  proof (cases "decodeHelloPayloadV02 (f_Payload f)")
    case (Ok r)
    then obtain ver nodeID peerCaps trailing where
      d: "decodeHelloPayloadV02 (f_Payload f) = Ok (ver, nodeID, peerCaps, trailing)" by (cases r) auto
    obtain inner where i: "f_Payload f = inner @ trailing" by (rule decodeHello_split [OF d])
    let ?sig = "if ver_Minor ver \<ge> 2 then check_hello_signature env v (f_Payload f) nodeID trailing else (Ok (), v)"
    have sig: "fst ?sig = Ok () \<longleftrightarrow> (ver_Minor ver \<ge> 2 \<longrightarrow> HasPrefix nodeID ''did:'' \<and>
        (\<exists>block n. DecodeSignatureBlock trailing = Ok (block, n) \<and> signed_by env v nodeID inner block))"
      using check_hello_signature_Ok [OF i] by simp
    have "fst (check_hello env v caps f) = Ok st \<longleftrightarrow>
        ver_Major ver = ver_Major CurrentVersion \<and> fst ?sig = Ok () \<and>
        obind (NegotiateCapabilities caps peerCaps) (\<lambda>active.
          Ok \<lparr>hs_PeerNodeID = nodeID, hs_NegotiatedMinor = min (ver_Minor ver) (ver_Minor CurrentVersion),
              hs_ActiveCapabilities = active\<rparr>) = Ok st"
      using True d
      by (cases ?sig; cases "fst ?sig") (auto simp: check_hello_def Let_def min_def)
    also have "\<dots> \<longleftrightarrow> hello_accepted env v caps f st"
      unfolding hello_accepted_def sig using True d i
      by (cases st) (auto simp: obind_eq_Ok_iff)
    finally show ?thesis .
  qed (use True in \<open>simp_all add: check_hello_def hello_accepted_def\<close>)
qed (auto simp: check_hello_def hello_accepted_def)

lemma SendFrame_in [simp]: "s_in (snd (Stream_SendFrame s f)) = s_in s"
  by (simp add: Stream_SendFrame_def split: outcome.splits option.splits)

definition hello_payload :: "env \<Rightarrow> NodeConfig \<Rightarrow> bytes outcome" where
  "hello_payload env cfg =
     obind (case nc_Signer cfg of None \<Rightarrow> ephemeralSigner env | Some s \<Rightarrow> Ok s) (\<lambda>signer.
     obind (on_err (Wrap ''aire: handshake: nonce'') (e_nonce env)) (\<lambda>nonce.
     buildSignedHello signer (nc_Capabilities cfg) nonce (e_now env)))"

lemma runHandshake_sent:
  assumes "hello_payload env cfg = Ok payload"
    and "Stream_SendFrame ctrl \<lparr>f_Type = FrameHello, f_Flags = 0, f_OpID = 0, f_Payload = payload\<rparr> = (Ok (), ctrl1)"
  shows "runHandshake env ctrl cfg =
    (case Stream_RecvFrame ctrl1 of
       (Err e, ctrl) \<Rightarrow> (Err (Wrap ''aire: handshake: recv first frame'' e), ctrl, nc_Verifier cfg)
     | (Panic, ctrl) \<Rightarrow> (Panic, ctrl, nc_Verifier cfg)
     | (Ok f, ctrl) \<Rightarrow>
         (case check_hello env (verifier_of cfg) (nc_Capabilities cfg) f of
            (res, v) \<Rightarrow> (res, ctrl, if nc_Verifier cfg = None then None else Some v)))"
  using assms by (simp add: runHandshake_def flip: hello_payload_def verifier_of_def)

lemma runHandshake_Ok:
  assumes "runHandshake env ctrl cfg = (Ok st, ctrl', v')"
  obtains payload ctrl1 f where
    "hello_payload env cfg = Ok payload"
    "Stream_SendFrame ctrl \<lparr>f_Type = FrameHello, f_Flags = 0, f_OpID = 0, f_Payload = payload\<rparr> = (Ok (), ctrl1)"
    "fst (readFrame (s_in ctrl)) = Ok f" "hello_accepted env (verifier_of cfg) (nc_Capabilities cfg) f st"
    "v' = (if nc_Verifier cfg = None then None
           else Some (snd (check_hello env (verifier_of cfg) (nc_Capabilities cfg) f)))"
proof -
  obtain payload where p: "hello_payload env cfg = Ok payload"
    using assms by (cases "hello_payload env cfg") (simp_all add: runHandshake_def flip: hello_payload_def)
  let ?f = "\<lparr>f_Type = FrameHello, f_Flags = 0, f_OpID = 0, f_Payload = payload\<rparr>"
  obtain u ctrl1 where "Stream_SendFrame ctrl ?f = (u, ctrl1)" by (cases "Stream_SendFrame ctrl ?f")
  then have s: "Stream_SendFrame ctrl ?f = (Ok (), ctrl1)"
    using assms p by (cases u) (simp_all add: runHandshake_def flip: hello_payload_def)
  have in1: "s_in ctrl1 = s_in ctrl" using SendFrame_in [of ctrl ?f] s by simp
  obtain g r where g: "readFrame (s_in ctrl) = (g, r)" by (cases "readFrame (s_in ctrl)")
  note run = assms [unfolded runHandshake_sent [OF p s] Stream_RecvFrame_def in1 g]
  obtain f where f: "g = Ok f" using run by (cases g) simp_all
  obtain res v where c: "check_hello env (verifier_of cfg) (nc_Capabilities cfg) f = (res, v)" 
    by (cases "check_hello env (verifier_of cfg) (nc_Capabilities cfg) f")
  have r: "res = Ok st" "v' = (if nc_Verifier cfg = None then None else Some v)"
    using run f c by simp_all
  show ?thesis
    by (rule that [OF p s, of f]) (use g f c r check_hello_Ok_iff in \<open>simp_all flip: check_hello_Ok_iff\<close>)
qed

lemma runHandshake_Ok_frame:
  assumes "runHandshake env ctrl cfg = (Ok st, ctrl', v')" "fst (readFrame (s_in ctrl)) = Ok f"
  shows "hello_accepted env (verifier_of cfg) (nc_Capabilities cfg) f st \<and>
    v' = (if nc_Verifier cfg = None then None
          else Some (snd (check_hello env (verifier_of cfg) (nc_Capabilities cfg) f)))"
  by (rule runHandshake_Ok [OF assms(1)]) (use assms(2) in simp)

section \<open>Properties of the exchange\<close>

lemma runHandshake_accept:
  assumes "hello_payload env cfg = Ok payload"
    and "Stream_SendFrame ctrl \<lparr>f_Type = FrameHello, f_Flags = 0, f_OpID = 0, f_Payload = payload\<rparr> = (Ok (), ctrl1)"
    and "fst (readFrame (s_in ctrl)) = Ok f" "hello_accepted env (verifier_of cfg) (nc_Capabilities cfg) f st"
  shows "fst (runHandshake env ctrl cfg) = Ok st"
proof -
  let ?f = "\<lparr>f_Type = FrameHello, f_Flags = 0, f_OpID = 0, f_Payload = payload\<rparr>"
  have in1: "s_in ctrl1 = s_in ctrl" using SendFrame_in [of ctrl ?f] assms(2) by simp
  obtain r where r: "readFrame (s_in ctrl) = (Ok f, r)" using assms(3) by (cases "readFrame (s_in ctrl)") auto
  obtain v where "check_hello env (verifier_of cfg) (nc_Capabilities cfg) f = (Ok st, v)"
    using assms(4) check_hello_Ok_iff by (metis prod.collapse)
  then show ?thesis by (simp add: runHandshake_sent [OF assms(1,2)] Stream_RecvFrame_def in1 r)
qed

text \<open>
  C2 (peer authentication).  When a handshake completes at minor version 2, the peer's
  NodeID is the DID of a verification method whose key verified a signature over the HELLO
  bytes that carry that NodeID, the peer's version and its capabilities, with a timestamp
  in the window and a nonce the verifier had not seen; and the active capabilities are
  those negotiated with exactly that list.
\<close>

theorem handshake_authenticates_peer:
  assumes "runHandshake env ctrl cfg = (Ok st, ctrl', v')" "hs_NegotiatedMinor st = 2"
  shows "\<exists>f ver peerCaps inner trailing block n pub msg.
    fst (readFrame (s_in ctrl)) = Ok f \<and> f_Type f = FrameHello \<and> f_OpID f = 0 \<and> f_Payload f = inner @ trailing \<and>
    decodeHelloPayloadV02 (f_Payload f) = Ok (ver, hs_PeerNodeID st, peerCaps, trailing) \<and>
    DecodeSignatureBlock trailing = Ok (block, n) \<and>
    fst (Cut (sb_VMID block) CHR ''#'') = hs_PeerNodeID st \<and>
    ResolveKey (e_net env) (verifier_of cfg) (sb_VMID block) = Ok pub \<and>
    signedMessageBytes FrameHello inner block = Ok msg \<and> e_verify env pub msg (sb_Signature block) \<and>
    in_window (verifier_of cfg) (e_clock env) (sb_TimestampMS block) \<and>
    seen_at (verifier_of cfg) (hs_PeerNodeID st) (sb_Nonce block) = None \<and>
    NegotiateCapabilities (nc_Capabilities cfg) peerCaps = Ok (hs_ActiveCapabilities st)"
proof -
  obtain f where f: "fst (readFrame (s_in ctrl)) = Ok f" "hello_accepted env (verifier_of cfg) (nc_Capabilities cfg) f st"
    by (rule runHandshake_Ok [OF assms(1)])
  then obtain ver peerCaps inner trailing where h:
      "f_Type f = FrameHello" "f_OpID f = 0" "f_Payload f = inner @ trailing"
      "decodeHelloPayloadV02 (f_Payload f) = Ok (ver, hs_PeerNodeID st, peerCaps, trailing)"
      "hs_NegotiatedMinor st = min (ver_Minor ver) (ver_Minor CurrentVersion)"
      "NegotiateCapabilities (nc_Capabilities cfg) peerCaps = Ok (hs_ActiveCapabilities st)"
      "ver_Minor ver \<ge> 2 \<longrightarrow> HasPrefix (hs_PeerNodeID st) ''did:'' \<and>
         (\<exists>block n. DecodeSignatureBlock trailing = Ok (block, n) \<and>
            signed_by env (verifier_of cfg) (hs_PeerNodeID st) inner block)"
    unfolding hello_accepted_def by blast
  have "ver_Minor ver \<ge> 2" using h(5) assms(2) by (metis min.cobounded1)
  then obtain block n where "DecodeSignatureBlock trailing = Ok (block, n)"
      "signed_by env (verifier_of cfg) (hs_PeerNodeID st) inner block"
    using h(7) by blast
  with f h show ?thesis unfolding signed_by_def signing_did_def by blast
qed

text \<open>
  C13 (what a HELLO signature fixes).  Two HELLOs whose signed messages are equal have the
  same inner bytes, hence the same version, NodeID and capabilities, and the same algorithm,
  verification method, nonce and timestamp: nothing can be moved between the unsigned
  length boundaries of the message.
\<close>

theorem hello_signature_binding:
  assumes "decodeHelloPayloadV02 (inner @ t) = Ok (ver, nodeID, caps, t)"
    and "decodeHelloPayloadV02 (inner' @ t') = Ok (ver', nodeID', caps', t')"
    and "SignatureBlock_wf b" "SignatureBlock_wf b'"
    and "signedMessageBytes FrameHello inner b = signedMessageBytes FrameHello inner' b'"
  shows "inner = inner' \<and> ver = ver' \<and> nodeID = nodeID' \<and> caps = caps' \<and>
         b\<lparr>sb_Signature := []\<rparr> = b'\<lparr>sb_Signature := []\<rparr>"
proof -
  have v: "length (sb_VMID b) < 2 ^ 62" "length (sb_VMID b') < 2 ^ 62"
    using assms(3,4) by (auto simp: SignatureBlock_wf_def)
  then have eq: "inner @ sig_meta b = inner' @ sig_meta b'"
    using assms(5) by (simp add: signedMessageBytes_def metaBytes_Ok)
  have d: "decodeHelloPayloadV02 (inner @ sig_meta b) = Ok (ver, nodeID, caps, sig_meta b)"
    by (rule decodeHello_split [OF assms(1)]) simp
  have "decodeHelloPayloadV02 (inner' @ sig_meta b') = Ok (ver', nodeID', caps', sig_meta b')"
    by (rule decodeHello_split [OF assms(2)]) simp
  with d eq have "ver = ver'" "nodeID = nodeID'" "caps = caps'" "sig_meta b = sig_meta b'" by simp_all
  then show ?thesis using eq sig_meta_inject [OF assms(3,4), of "[]" "[]"] by simp
qed

section \<open>Two honest nodes\<close>

definition did_signer :: "env \<Rightarrow> bytes \<Rightarrow> Signer" where
  "did_signer env priv = \<lparr>sg_DID = MakeDIDKey (e_public env priv),
     sg_VMID = MakeDIDKey (e_public env priv) @ CHR ''#'' # encodeMultibaseEd25519 (e_public env priv),
     sg_Sign = e_sign env priv\<rparr>"

lemma NewEd25519DIDKeySigner_eq: "NewEd25519DIDKeySigner env priv = Ok (did_signer env priv)"
  by (simp add: NewEd25519DIDKeySigner_def did_signer_def DIDKeyVMID_MakeDIDKey Let_def)

text \<open>A node with a did:key signer, a nonce and capabilities that fit the wire.\<close>

definition honest_node :: "env \<Rightarrow> bytes \<Rightarrow> NodeConfig \<Rightarrow> bytes \<Rightarrow> bool" where
  "honest_node env priv cfg nonce \<longleftrightarrow>
     NewEd25519DIDKeySigner env priv = Ok (the (nc_Signer cfg)) \<and> nc_Signer cfg \<noteq> None \<and>
     length (e_public env priv) = 32 \<and> (\<forall>m. length (e_sign env priv m) = 64) \<and>
     e_nonce env = Ok nonce \<and> length nonce = 16 \<and>
     length (nc_Capabilities cfg) * 32 \<le> maxAlloc \<and> list_all cap_wf (nc_Capabilities cfg)"

definition honest_inner :: "env \<Rightarrow> bytes \<Rightarrow> NodeConfig \<Rightarrow> bytes" where
  "honest_inner env priv cfg = hello_inner CurrentVersion (MakeDIDKey (e_public env priv)) (nc_Capabilities cfg)"

definition honest_block :: "env \<Rightarrow> bytes \<Rightarrow> NodeConfig \<Rightarrow> bytes \<Rightarrow> SignatureBlock" where
  "honest_block env priv cfg nonce =
     (let block = \<lparr>sb_Algorithm = SigAlgEd25519, sb_VMID = sg_VMID (did_signer env priv), sb_Nonce = nonce,
                   sb_TimestampMS = Time_UnixMilli (e_now env), sb_Signature = []\<rparr>
      in block\<lparr>sb_Signature :=
           e_sign env priv (bytes_of_string DomainSeparator @ FrameHello # honest_inner env priv cfg @ sig_meta block)\<rparr>)"

lemma honest_signer: "honest_node env priv cfg nonce \<Longrightarrow> nc_Signer cfg = Some (did_signer env priv)"
  by (auto simp: honest_node_def NewEd25519DIDKeySigner_eq)

lemma honest_hello_wf:
  "honest_node env priv cfg nonce \<Longrightarrow> hello_wf CurrentVersion (MakeDIDKey (e_public env priv)) (nc_Capabilities cfg)"
  using length_MakeDIDKey [of "e_public env priv"] by (simp add: honest_node_def hello_wf_def CurrentVersion_def MaxVarint_def)

lemma honest_block_wf:
  assumes "honest_node env priv cfg nonce" shows "SignatureBlock_wf (honest_block env priv cfg nonce)"
  using assms length_MakeDIDKey [of "e_public env priv"]
  by (simp add: honest_node_def honest_block_def SignatureBlock_wf_def did_signer_def Let_def)

lemma sig_meta_signature [simp]: "sig_meta (b\<lparr>sb_Signature := s\<rparr>) = sig_meta b"
  by (simp add: sig_meta_def)

lemma honest_message:
  assumes "honest_node env priv cfg nonce"
  shows "signedMessageBytes FrameHello (honest_inner env priv cfg) (honest_block env priv cfg nonce) =
    Ok (bytes_of_string DomainSeparator @ FrameHello # honest_inner env priv cfg @ sig_meta (honest_block env priv cfg nonce))"
  using honest_block_wf [OF assms] by (simp add: signedMessageBytes_def metaBytes_Ok SignatureBlock_wf_def)

lemma honest_hello_payload:
  assumes "honest_node env priv cfg nonce"
  shows "\<exists>bs. SignatureBlock_Encode (honest_block env priv cfg nonce) = Ok bs \<and>
              hello_payload env cfg = Ok (honest_inner env priv cfg @ bs)"
proof -
  let ?b = "honest_block env priv cfg nonce"
  let ?base = "\<lparr>sb_Algorithm = SigAlgEd25519, sb_VMID = sg_VMID (did_signer env priv), sb_Nonce = nonce,
                   sb_TimestampMS = Time_UnixMilli (e_now env), sb_Signature = []\<rparr>"
  obtain bs where bs: "SignatureBlock_Encode ?b = Ok bs" using sigblock.enc_total honest_block_wf [OF assms] by blast
  have v: "length (sb_VMID ?base) < 2 ^ 62"
    using honest_block_wf [OF assms] by (simp add: honest_block_def SignatureBlock_wf_def Let_def)
  have "signedMessageBytes FrameHello (honest_inner env priv cfg) ?base =
      Ok (bytes_of_string DomainSeparator @ FrameHello # honest_inner env priv cfg @ sig_meta ?base)"
    using v by (simp add: signedMessageBytes_def metaBytes_Ok)
  moreover have "encodeHelloInner CurrentVersion (sg_DID (did_signer env priv)) (nc_Capabilities cfg) =
      Ok (honest_inner env priv cfg)"
    using encodeHelloInner_Ok [OF honest_hello_wf [OF assms]] by (simp add: did_signer_def honest_inner_def)
  moreover have "e_nonce env = Ok nonce" using assms by (simp add: honest_node_def)
  moreover have "?b = ?base\<lparr>sb_Signature := sg_Sign (did_signer env priv)
      (bytes_of_string DomainSeparator @ FrameHello # honest_inner env priv cfg @ sig_meta ?base)\<rparr>"
    by (simp add: honest_block_def did_signer_def)
  ultimately show ?thesis
    using bs honest_signer [OF assms] by (simp add: hello_payload_def buildSignedHello_def Let_def)
qed

lemma honest_sig_meta:
  "sig_meta (honest_block env priv cfg nonce) =
   sig_meta \<lparr>sb_Algorithm = SigAlgEd25519, sb_VMID = sg_VMID (did_signer env priv), sb_Nonce = nonce,
             sb_TimestampMS = Time_UnixMilli (e_now env), sb_Signature = []\<rparr>"
  by (simp add: honest_block_def sig_meta_def)

text \<open>What the other side's verifier must grant an honest HELLO: correct crypto, a close clock, a new nonce.\<close>

definition grants :: "env \<Rightarrow> NodeConfig \<Rightarrow> env \<Rightarrow> bytes \<Rightarrow> bytes \<Rightarrow> bool" where
  "grants env cfg env' priv' nonce' \<longleftrightarrow>
     (\<forall>m. e_verify env (e_public env' priv') m (e_sign env' priv' m)) \<and>
     in_window (verifier_of cfg) (e_clock env) (Time_UnixMilli (e_now env')) \<and>
     seen_at (verifier_of cfg) (MakeDIDKey (e_public env' priv')) nonce' = None"

lemma honest_hello_accepted:
  assumes "honest_node env' priv' cfg' nonce'" "grants env cfg env' priv' nonce'"
    and "NegotiateCapabilities (nc_Capabilities cfg) (nc_Capabilities cfg') = Ok active"
    and "hello_payload env' cfg' = Ok payload" "f_Type f = FrameHello" "f_OpID f = 0" "f_Payload f = payload"
  shows "hello_accepted env (verifier_of cfg) (nc_Capabilities cfg) f
    \<lparr>hs_PeerNodeID = MakeDIDKey (e_public env' priv'), hs_NegotiatedMinor = 2, hs_ActiveCapabilities = active\<rparr>"
proof -
  let ?pub = "e_public env' priv'" and ?b = "honest_block env' priv' cfg' nonce'"
  let ?inner = "honest_inner env' priv' cfg'" and ?v = "verifier_of cfg"
  have len: "length ?pub = 32" using assms(1) by (simp add: honest_node_def)
  obtain bs where bs: "SignatureBlock_Encode ?b = Ok bs" "payload = ?inner @ bs"
    using honest_hello_payload [OF assms(1)] assms(4) by auto
  have d: "DecodeSignatureBlock bs = Ok (?b, length bs)" using sigblock.dec_enc [OF honest_block_wf [OF assms(1)] bs(1)] .
  have h: "decodeHelloPayloadV02 payload = Ok (CurrentVersion, MakeDIDKey ?pub, nc_Capabilities cfg', bs)"
    unfolding bs(2) honest_inner_def by (rule hello_roundtrip [OF honest_hello_wf [OF assms(1)]])
  have vm: "sb_VMID ?b = MakeDIDKey ?pub @ CHR ''#'' # encodeMultibaseEd25519 ?pub"
    by (simp add: honest_block_def did_signer_def Let_def)
  then have did: "signing_did ?b = MakeDIDKey ?pub" by (simp add: signing_did_def Cut_VMID)
  have "ResolveKey (e_net env) ?v (sb_VMID ?b) = Ok ?pub" unfolding vm by (rule ResolveKey_did_key [OF len])
  moreover have "e_verify env ?pub (bytes_of_string DomainSeparator @ FrameHello # ?inner @ sig_meta ?b) (sb_Signature ?b)"
    using assms(2) unfolding honest_sig_meta by (simp add: grants_def honest_block_def)
  moreover have "sb_Algorithm ?b = SigAlgEd25519" "sb_TimestampMS ?b = Time_UnixMilli (e_now env')" "sb_Nonce ?b = nonce'"
    by (simp_all add: honest_block_def Let_def)
  ultimately have "signed_by env ?v (MakeDIDKey ?pub) ?inner ?b"
    using did assms(2) honest_message [OF assms(1)] by (simp add: signed_by_def grants_def)
  moreover have "HasPrefix (MakeDIDKey ?pub) ''did:''" by (simp add: MakeDIDKey_def didKeyPrefix_def HasPrefix_Cons)
  ultimately show ?thesis
    using assms(3,5-7) h d bs(2) by (auto simp: hello_accepted_def CurrentVersion_def)
qed

text \<open>A stream whose peer sent a HELLO frame with this payload, and whose writes succeed.\<close>

definition delivers :: "Stream \<Rightarrow> bytes \<Rightarrow> bool" where
  "delivers ctrl payload \<longleftrightarrow> (\<forall>bs. s_write ctrl bs = None) \<and> length payload \<le> unat MaxFrameSize \<and>
     (\<exists>bs rest. Frame_Encode \<lparr>f_Type = FrameHello, f_Flags = 0, f_OpID = 0, f_Payload = payload\<rparr> = Ok bs \<and>
        concat (rd_chunks (s_in ctrl)) = bs @ rest)"

lemma delivers_frame:
  assumes "delivers ctrl payload"
  shows "fst (readFrame (s_in ctrl)) = Ok \<lparr>f_Type = FrameHello, f_Flags = 0, f_OpID = 0, f_Payload = payload\<rparr>"
proof -
  let ?f = "\<lparr>f_Type = FrameHello, f_Flags = 0, f_OpID = 0, f_Payload = payload\<rparr>"
  obtain bs rest where b: "Frame_Encode ?f = Ok bs" "pending (s_in ctrl) = bs @ rest"
    using assms unfolding delivers_def pending_def by blast
  have "Frame_wf ?f" using assms by (simp add: delivers_def Frame_wf_def)
  then have "Decode (pending (s_in ctrl)) = Ok (?f, length bs)"
    unfolding b(2) using b(1) by (rule frame.dec_enc_append)
  then show ?thesis by (rule readFrame_Ok(1))
qed

lemma SendFrame_Ok:
  assumes "\<forall>bs. s_write ctrl bs = None" "Frame_wf f"
  shows "\<exists>ctrl1. Stream_SendFrame ctrl f = (Ok (), ctrl1)"
  using frame.enc_total [OF assms(2)] assms(1) by (auto simp: Stream_SendFrame_def)

lemma honest_side:
  assumes "honest_node env priv cfg nonce" "honest_node env' priv' cfg' nonce'" "grants env cfg env' priv' nonce'"
    and "hello_payload env cfg = Ok payload" "length payload \<le> unat MaxFrameSize"
    and "hello_payload env' cfg' = Ok payload'" "delivers ctrl payload'"
    and "compatible (nc_Capabilities cfg) (nc_Capabilities cfg')"
  shows "fst (runHandshake env ctrl cfg) =
    Ok \<lparr>hs_PeerNodeID = MakeDIDKey (e_public env' priv'), hs_NegotiatedMinor = 2,
        hs_ActiveCapabilities = active_loop (nc_Capabilities cfg) (by_name (nc_Capabilities cfg'))\<rparr>"
proof -
  let ?a = "active_loop (nc_Capabilities cfg) (by_name (nc_Capabilities cfg'))"
  have neg: "NegotiateCapabilities (nc_Capabilities cfg) (nc_Capabilities cfg') = Ok ?a"
    using assms(8) by (simp add: NegotiateCapabilities_Ok_iff)
  have wf: "Frame_wf \<lparr>f_Type = FrameHello, f_Flags = 0, f_OpID = 0, f_Payload = payload\<rparr>"
    using assms(5) by (simp add: Frame_wf_def)
  obtain ctrl1 where s: "Stream_SendFrame ctrl \<lparr>f_Type = FrameHello, f_Flags = 0, f_OpID = 0, f_Payload = payload\<rparr> = (Ok (), ctrl1)"
    using SendFrame_Ok [OF _ wf, of ctrl] assms(7) by (auto simp: delivers_def)
  show ?thesis
    by (rule runHandshake_accept [OF assms(4) s delivers_frame [OF assms(7)]],
        rule honest_hello_accepted [OF assms(2,3) neg assms(6)]) simp_all
qed

text \<open>
  C4 (honest handshake completes).  Two nodes with did:key signers that verify each other's
  signatures, whose clocks are within a window and whose nonces are new, and whose
  capabilities are compatible, both complete the handshake over streams that deliver each
  other's HELLO, however chunked: each learns the other's DID, both are at minor version 2
  and their active capability sets agree.
\<close>

theorem honest_handshake_completes:
  assumes "honest_node envA privA cfgA nonceA" "honest_node envB privB cfgB nonceB"
    and "grants envA cfgA envB privB nonceB" "grants envB cfgB envA privA nonceA"
    and "hello_payload envA cfgA = Ok payloadA" "hello_payload envB cfgB = Ok payloadB"
    and "delivers ctrlA payloadB" "delivers ctrlB payloadA"
    and "compatible (nc_Capabilities cfgA) (nc_Capabilities cfgB)"
  shows "\<exists>activeA activeB.
    fst (runHandshake envA ctrlA cfgA) =
      Ok \<lparr>hs_PeerNodeID = MakeDIDKey (e_public envB privB), hs_NegotiatedMinor = 2, hs_ActiveCapabilities = activeA\<rparr> \<and>
    fst (runHandshake envB ctrlB cfgB) =
      Ok \<lparr>hs_PeerNodeID = MakeDIDKey (e_public envA privA), hs_NegotiatedMinor = 2, hs_ActiveCapabilities = activeB\<rparr> \<and>
    set activeA = set activeB"
proof -
  have "set (active_loop (nc_Capabilities cfgA) (by_name (nc_Capabilities cfgB))) =
      set (active_loop (nc_Capabilities cfgB) (by_name (nc_Capabilities cfgA)))"
    using assms(9) by (simp add: set_active_loop compatible_def active_set_sym [of "nc_Capabilities cfgA"])
  moreover have "length payloadA \<le> unat MaxFrameSize" "length payloadB \<le> unat MaxFrameSize"
    using assms(7,8) by (simp_all add: delivers_def)
  ultimately show ?thesis
    using honest_side [OF assms(1,2,3,5) _ assms(6,7)] honest_side [OF assms(2,1,4,6) _ assms(5,8)] assms(9)
    by (simp add: compatible_sym)
qed

subsection \<open>A concrete pair of nodes\<close>

text \<open>A stand-in for Ed25519 (a key signs with itself) and two nodes that use it.\<close>

definition sample_env :: env where
  "sample_env = \<lparr>e_net = \<lparr>NewRequest = (\<lambda>_. None), DefaultClient = (\<lambda>_. Err EOF),
       DefaultLookupTXT = (\<lambda>_. Err EOF), Unmarshal = (\<lambda>_. Err EOF)\<rparr>,
     e_public = (\<lambda>priv. priv), e_sign = (\<lambda>priv _. priv @ priv), e_verify = (\<lambda>pub _ sig. sig = pub @ pub),
     e_keygen = Err EOF, e_nonce = Ok (replicate 16 7), e_now = 0, e_clock = 0\<rparr>"

definition sample_cfg :: "bool \<Rightarrow> bytes \<Rightarrow> NodeConfig" where
  "sample_cfg keep priv = \<lparr>nc_Signer = Some (did_signer sample_env priv),
     nc_Verifier = (if keep then Some NewVerifier else None), nc_Capabilities = []\<rparr>"

definition sample_stream :: "bytes \<Rightarrow> Stream" where
  "sample_stream bs = \<lparr>s_ID = 0, s_in = \<lparr>rd_chunks = [bs], rd_err = EOF, rd_joined = False\<rparr>,
     s_write = (\<lambda>_. None), s_sent = [], s_closed = False\<rparr>"

lemma length_varint_le: "length (varint v) \<le> 8"
  by (simp add: length_varint)

lemma sample_honest: "length priv = 32 \<Longrightarrow> honest_node sample_env priv (sample_cfg keep priv) (replicate 16 7)"
  by (simp add: honest_node_def NewEd25519DIDKeySigner_eq sample_cfg_def) (simp add: sample_env_def)

lemma sample_grants: "grants sample_env (sample_cfg keep priv) sample_env priv' (replicate 16 7)"
  by (simp add: grants_def sample_env_def sample_cfg_def verifier_of_def in_window_iff age_def Time_UnixMilli_def)

lemma sample_payload:
  assumes "length priv = 32"
  obtains payload where "hello_payload sample_env (sample_cfg keep priv) = Ok payload" "length payload \<le> 500"
proof -
  let ?b = "honest_block sample_env priv (sample_cfg keep priv) (replicate 16 7)"
  obtain bs where bs: "SignatureBlock_Encode ?b = Ok bs"
      "hello_payload sample_env (sample_cfg keep priv) = Ok (honest_inner sample_env priv (sample_cfg keep priv) @ bs)"
    using honest_hello_payload [OF sample_honest [OF assms]] by blast
  have pub: "e_public sample_env priv = priv" "length (e_sign sample_env priv m) = 64" for m
    using assms by (simp_all add: sample_env_def)
  note len = length_MakeDIDKey [OF assms]
  have v: "length (varint (word_of_nat n)) \<le> 8" for n by (rule length_varint_le)
  have "length (honest_inner sample_env priv (sample_cfg keep priv)) \<le> 150"
    using len(1) v [of "length (MakeDIDKey priv)"] v [of 0] length_varint_le [of 2] length_varint_le [of 0]
    by (simp add: honest_inner_def hello_inner_def pub wire_string_def sample_cfg_def CurrentVersion_def)
  moreover have "length bs \<le> 350"
    using SignatureBlock_Encode_Ok [OF honest_block_wf [OF sample_honest [OF assms]]] bs(1) len
      v [of "length (sb_VMID ?b)"] v [of 64]
    by (auto simp: sig_meta_def honest_block_def Let_def wire_string_def did_signer_def pub)
  ultimately show ?thesis using that [OF bs(2)] by simp
qed

lemma sample_delivers:
  assumes "length payload \<le> 500"
  obtains bs where "delivers (sample_stream bs) payload"
proof -
  let ?f = "\<lparr>f_Type = FrameHello, f_Flags = 0, f_OpID = 0, f_Payload = payload\<rparr>"
  have "Frame_wf ?f" using assms by (simp add: Frame_wf_def)
  then obtain bs where "Frame_Encode ?f = Ok bs" using frame.enc_total by blast
  then show ?thesis using that [of bs] assms by (simp add: delivers_def sample_stream_def)
qed

lemma sample_handshake:
  obtains ctrl where "fst (runHandshake sample_env ctrl (sample_cfg keep (replicate 32 1))) =
    Ok \<lparr>hs_PeerNodeID = MakeDIDKey (replicate 32 2), hs_NegotiatedMinor = 2, hs_ActiveCapabilities = []\<rparr>"
proof -
  let ?a = "replicate 32 1 :: bytes" and ?b = "replicate 32 2 :: bytes"
  obtain pA pB where p: "hello_payload sample_env (sample_cfg keep ?a) = Ok pA" "length pA \<le> 500"
      "hello_payload sample_env (sample_cfg keep ?b) = Ok pB" "length pB \<le> 500"
    using sample_payload [of ?a] sample_payload [of ?b] by (metis length_replicate)
  obtain bs where d: "delivers (sample_stream bs) pB" by (rule sample_delivers [OF p(4)])
  have wf: "Frame_wf \<lparr>f_Type = FrameHello, f_Flags = 0, f_OpID = 0, f_Payload = pA\<rparr>"
    using p(2) by (simp add: Frame_wf_def)
  obtain ctrl1 where s: "Stream_SendFrame (sample_stream bs) \<lparr>f_Type = FrameHello, f_Flags = 0, f_OpID = 0, f_Payload = pA\<rparr> = (Ok (), ctrl1)"
    using SendFrame_Ok [OF _ wf, of "sample_stream bs"] by (auto simp: sample_stream_def)
  have n: "NegotiateCapabilities (nc_Capabilities (sample_cfg keep ?a)) (nc_Capabilities (sample_cfg keep ?b)) = Ok []"
    by (simp add: sample_cfg_def NegotiateCapabilities_def indexCapabilities_def)
  have "hello_accepted sample_env (verifier_of (sample_cfg keep ?a)) (nc_Capabilities (sample_cfg keep ?a))
      \<lparr>f_Type = FrameHello, f_Flags = 0, f_OpID = 0, f_Payload = pB\<rparr>
      \<lparr>hs_PeerNodeID = MakeDIDKey (e_public sample_env ?b), hs_NegotiatedMinor = 2, hs_ActiveCapabilities = []\<rparr>"
    by (rule honest_hello_accepted [OF sample_honest sample_grants n p(3)]) simp_all
  then show ?thesis
    using that [of "sample_stream bs"] runHandshake_accept [OF p(1) s delivers_frame [OF d]]
    by (simp add: sample_env_def)
qed

theorem handshake_authenticates_peer_witness:
  "\<exists>(ctrl :: Stream) f block n trailing. fst (readFrame (s_in ctrl)) = Ok f \<and> DecodeSignatureBlock trailing = Ok (block, n) \<and>
     fst (Cut (sb_VMID block) CHR ''#'') = MakeDIDKey (replicate 32 2)"
proof -
  obtain ctrl where "fst (runHandshake sample_env ctrl (sample_cfg True (replicate 32 1))) =
      Ok \<lparr>hs_PeerNodeID = MakeDIDKey (replicate 32 2), hs_NegotiatedMinor = 2, hs_ActiveCapabilities = []\<rparr>"
    by (rule sample_handshake)
  then obtain ctrl' v' where "runHandshake sample_env ctrl (sample_cfg True (replicate 32 1)) =
      (Ok \<lparr>hs_PeerNodeID = MakeDIDKey (replicate 32 2), hs_NegotiatedMinor = 2, hs_ActiveCapabilities = []\<rparr>, ctrl', v')"
    by (metis prod.collapse)
  from handshake_authenticates_peer [OF this, simplified] show ?thesis by blast
qed

theorem honest_handshake_completes_witness:
  "\<exists>ctrlA ctrlB activeA activeB.
    fst (runHandshake sample_env ctrlA (sample_cfg True (replicate 32 1))) =
      Ok \<lparr>hs_PeerNodeID = MakeDIDKey (replicate 32 2), hs_NegotiatedMinor = 2, hs_ActiveCapabilities = activeA\<rparr> \<and>
    fst (runHandshake sample_env ctrlB (sample_cfg True (replicate 32 2))) =
      Ok \<lparr>hs_PeerNodeID = MakeDIDKey (replicate 32 1), hs_NegotiatedMinor = 2, hs_ActiveCapabilities = activeB\<rparr>"
proof -
  let ?a = "replicate 32 1 :: bytes" and ?b = "replicate 32 2 :: bytes"
  obtain pA pB where p: "hello_payload sample_env (sample_cfg True ?a) = Ok pA" "length pA \<le> 500"
      "hello_payload sample_env (sample_cfg True ?b) = Ok pB" "length pB \<le> 500"
    using sample_payload [of ?a] sample_payload [of ?b] by (metis length_replicate)
  obtain x y where d: "delivers (sample_stream x) pB" "delivers (sample_stream y) pA"
    using sample_delivers p(2,4) by metis
  have c: "compatible (nc_Capabilities (sample_cfg True ?a)) (nc_Capabilities (sample_cfg True ?b))"
    by (simp add: sample_cfg_def compatible_def)
  have pub: "e_public sample_env priv = priv" for priv by (simp add: sample_env_def)
  show ?thesis
    using honest_handshake_completes [OF sample_honest sample_honest sample_grants sample_grants p(1,3) d c]
    by (simp add: pub) blast
qed

theorem hello_signature_binding_witness:
  "\<exists>inner b. signedMessageBytes FrameHello inner b = signedMessageBytes FrameHello inner (b\<lparr>sb_Signature := [1]\<rparr>) \<and>
     decodeHelloPayloadV02 (inner @ []) = Ok (CurrentVersion, ''did:web:a'', [], []) \<and>
     b\<lparr>sb_Signature := []\<rparr> = (b\<lparr>sb_Signature := [1]\<rparr>)\<lparr>sb_Signature := []\<rparr>"
proof -
  let ?inner = "hello_inner CurrentVersion ''did:web:a'' []"
  let ?b = "\<lparr>sb_Algorithm = 1, sb_VMID = ''a'', sb_Nonce = replicate 16 7, sb_TimestampMS = 0, sb_Signature = []\<rparr>"
  have d: "decodeHelloPayloadV02 (?inner @ []) = Ok (CurrentVersion, ''did:web:a'', [], [])"
    by (rule hello_roundtrip) (simp add: hello_wf_def CurrentVersion_def MaxVarint_def)
  have w: "SignatureBlock_wf ?b" "SignatureBlock_wf (?b\<lparr>sb_Signature := [1]\<rparr>)" by (simp_all add: SignatureBlock_wf_def)
  have s: "signedMessageBytes FrameHello ?inner ?b = signedMessageBytes FrameHello ?inner (?b\<lparr>sb_Signature := [1]\<rparr>)"
    by (simp add: signedMessageBytes_def metaBytes_def)
  show ?thesis using hello_signature_binding [OF d d w s] d s by blast
qed

section \<open>Limits of the authentication\<close>

text \<open>
  C37 (unsigned HELLO below minor version 2).  A peer that claims minor version 0 or 1 is
  accepted under any NodeID it likes, without a signature: the state reports that NodeID
  as the peer's.
\<close>

theorem downgrade_unauthenticated:
  assumes "hello_payload env cfg = Ok payload" "length payload \<le> unat MaxFrameSize"
    and "minor < 2" "length nodeID < 2 ^ 62" "NegotiateCapabilities (nc_Capabilities cfg) [] = Ok active"
    and "encodeHelloInner \<lparr>ver_Major = 0, ver_Minor = minor\<rparr> nodeID [] = Ok forged" "delivers ctrl forged"
  shows "fst (runHandshake env ctrl cfg) =
    Ok \<lparr>hs_PeerNodeID = nodeID, hs_NegotiatedMinor = minor, hs_ActiveCapabilities = active\<rparr>"
proof -
  let ?ver = "\<lparr>ver_Major = 0, ver_Minor = minor\<rparr>"
  have le: "minor \<le> MaxVarint" using less_imp_le [OF assms(3)] by (rule order_trans) (simp add: MaxVarint_def)
  then have wf: "hello_wf ?ver nodeID []" using assms(4) by (simp add: hello_wf_def MaxVarint_def)
  have forged: "forged = hello_inner ?ver nodeID []" using assms(6) encodeHelloInner_Ok [OF wf] by simp
  have "decodeHelloPayloadV02 forged = Ok (?ver, nodeID, [], [])"
    using hello_roundtrip [OF wf, of "[]"] by (simp add: forged)
  then have acc: "hello_accepted env (verifier_of cfg) (nc_Capabilities cfg)
      \<lparr>f_Type = FrameHello, f_Flags = 0, f_OpID = 0, f_Payload = forged\<rparr>
      \<lparr>hs_PeerNodeID = nodeID, hs_NegotiatedMinor = minor, hs_ActiveCapabilities = active\<rparr>"
    using assms(3,5) by (auto simp: hello_accepted_def CurrentVersion_def min_def)
  have "Frame_wf \<lparr>f_Type = FrameHello, f_Flags = 0, f_OpID = 0, f_Payload = payload\<rparr>"
    using assms(2) by (simp add: Frame_wf_def)
  then obtain ctrl1 where "Stream_SendFrame ctrl \<lparr>f_Type = FrameHello, f_Flags = 0, f_OpID = 0, f_Payload = payload\<rparr> = (Ok (), ctrl1)"
    using SendFrame_Ok [of ctrl] assms(7) by (auto simp: delivers_def)
  then show ?thesis by (rule runHandshake_accept [OF assms(1) _ delivers_frame [OF assms(7)] acc])
qed

theorem downgrade_unauthenticated_witness:
  "\<exists>ctrl. fst (runHandshake sample_env ctrl (sample_cfg True (replicate 32 1))) =
    Ok \<lparr>hs_PeerNodeID = ''did:web:victim.example'', hs_NegotiatedMinor = 1, hs_ActiveCapabilities = []\<rparr>"
proof -
  obtain p where p: "hello_payload sample_env (sample_cfg True (replicate 32 1)) = Ok p" "length p \<le> 500"
    using sample_payload [of "replicate 32 1"] by (metis length_replicate)
  let ?ver = "\<lparr>ver_Major = 0, ver_Minor = 1\<rparr>" and ?id = "''did:web:victim.example''"
  have wf: "hello_wf ?ver ?id []" by (simp add: hello_wf_def MaxVarint_def)
  have "length (hello_inner ?ver ?id []) \<le> 500"
    using length_varint_le [of 22] by (simp add: hello_inner_def wire_string_def length_varint)
  then obtain bs where d: "delivers (sample_stream bs) (hello_inner ?ver ?id [])" by (rule sample_delivers)
  show ?thesis
    by (rule exI, rule downgrade_unauthenticated [OF p(1) _ _ _ _ encodeHelloInner_Ok [OF wf] d])
       (use p(2) in \<open>simp_all add: sample_cfg_def NegotiateCapabilities_def indexCapabilities_def\<close>)
qed

text \<open>Handshakes on one configured verifier, which each of them returns updated.\<close>

definition shared_handshake ::
  "Verifier \<Rightarrow> env \<times> Stream \<times> NodeConfig \<Rightarrow> HandshakeState outcome \<times> Verifier" where
  "shared_handshake v = (\<lambda>(env, ctrl, cfg).
     case runHandshake env ctrl (cfg\<lparr>nc_Verifier := Some v\<rparr>) of
       (res, _, w) \<Rightarrow> (res, case w of None \<Rightarrow> v | Some w \<Rightarrow> w))"

lemma check_hello_signature_verifier:
  "snd (check_hello_signature env v payload nodeID trailing) = v \<or>
   (\<exists>block msg. snd (check_hello_signature env v payload nodeID trailing) =
      snd (Verify (e_net env) (e_verify env) (e_clock env) v block msg))"
  by (simp add: check_hello_signature_def Let_def split: outcome.splits prod.splits) blast

lemma check_hello_verifier:
  "snd (check_hello env v caps f) = v \<or>
   (\<exists>block msg. snd (check_hello env v caps f) = snd (Verify (e_net env) (e_verify env) (e_clock env) v block msg))"
proof (cases "decodeHelloPayloadV02 (f_Payload f)")
  case (Ok r)
  obtain ver nodeID caps' trailing where r: "r = (ver, nodeID, caps', trailing)" by (cases r) auto
  let ?sig = "if ver_Minor ver \<ge> 2 then check_hello_signature env v (f_Payload f) nodeID trailing else (Ok (), v)"
  have "snd (check_hello env v caps f) = v \<or> snd (check_hello env v caps f) = snd ?sig"
    using Ok r by (cases ?sig; cases "fst ?sig") (auto simp: check_hello_def Let_def)
  then show ?thesis using check_hello_signature_verifier [of env v "f_Payload f" nodeID trailing] by (metis snd_conv)
qed (simp_all add: check_hello_def)

lemma shared_handshake_verifier:
  "snd (shared_handshake v (env, ctrl, cfg)) = v \<or>
   (\<exists>block msg. snd (shared_handshake v (env, ctrl, cfg)) = snd (Verify (e_net env) (e_verify env) (e_clock env) v block msg))"
proof -
  obtain res ctrl' w where r: "runHandshake env ctrl (cfg\<lparr>nc_Verifier := Some v\<rparr>) = (res, ctrl', w)"
    by (cases "runHandshake env ctrl (cfg\<lparr>nc_Verifier := Some v\<rparr>)")
  have "w = Some v \<or> (\<exists>caps f. w = Some (snd (check_hello env v caps f)))"
    using r by (simp add: runHandshake_def Let_def split: outcome.splits prod.splits) (metis snd_conv)+
  then show ?thesis using r check_hello_verifier [of env v] by (simp add: shared_handshake_def) (metis option.simps(5))
qed

lemma shared_handshake_keeps:
  assumes "seen_at v did n = Some ts" "window_ok v" "in_window v now ts" "clock_ok (e_clock env)" "e_clock env \<le> now"
  shows "seen_at (snd (shared_handshake v (env, ctrl, cfg))) did n = Some ts \<and>
    v_Window (snd (shared_handshake v (env, ctrl, cfg))) = v_Window v"
  using shared_handshake_verifier [of v env ctrl cfg] assms(1) seen_kept [OF assms(1,4,2,5,3)] by auto

lemma shared_handshake_Ok:
  assumes "fst (shared_handshake v (env, ctrl, cfg)) = Ok st"
  obtains f where "fst (readFrame (s_in ctrl)) = Ok f" "hello_accepted env v (nc_Capabilities cfg) f st"
    "snd (shared_handshake v (env, ctrl, cfg)) = snd (check_hello env v (nc_Capabilities cfg) f)"
proof -
  let ?cfg = "cfg\<lparr>nc_Verifier := Some v\<rparr>"
  obtain ctrl' w where r: "runHandshake env ctrl ?cfg = (Ok st, ctrl', w)"
    using assms by (auto simp: shared_handshake_def split: prod.splits)
  show ?thesis
    by (rule runHandshake_Ok [OF r], rule that) (use r in \<open>simp_all add: shared_handshake_def verifier_of_def\<close>)
qed

lemma check_hello_records:
  assumes "hello_accepted env v caps f st" "f_Payload f = inner @ trailing" "DecodeSignatureBlock trailing = Ok (block, n)"
    and "decodeHelloPayloadV02 (f_Payload f) = Ok (ver, hs_PeerNodeID st, peerCaps, trailing)" "2 \<le> ver_Minor ver"
  shows "seen_at (snd (check_hello env v caps f)) (hs_PeerNodeID st) (sb_Nonce block) = Some (sb_TimestampMS block)"
proof -
  have h: "f_Type f = FrameHello" "f_OpID f = 0" "ver_Major ver = ver_Major CurrentVersion"
    using assms(1,4) by (auto simp: hello_accepted_def)
  have did: "HasPrefix (hs_PeerNodeID st) ''did:''" "signed_by env v (hs_PeerNodeID st) inner block"
    using assms unfolding hello_accepted_def by auto
  obtain msg where m: "signedMessageBytes FrameHello inner block = Ok msg"
    using did(2) by (auto simp: signed_by_def)
  have t: "trailing \<noteq> []" using assms(3) by (rule sigblock.dec_nonempty)
  have sd: "signing_did block = hs_PeerNodeID st" using did(2) by (simp add: signed_by_def)
  have rec: "records v (e_clock env) block"
    using did by (auto simp: signed_by_def records_def HasPrefix_def)
  have "check_hello_signature env v (f_Payload f) (hs_PeerNodeID st) trailing =
      Verify (e_net env) (e_verify env) (e_clock env) v block msg"
    using did(1) t assms(2,3) m sd by (simp add: check_hello_signature_def signing_did_def)
  then have "snd (check_hello env v caps f) = snd (Verify (e_net env) (e_verify env) (e_clock env) v block msg)"
    using h assms(4,5)
    by (cases "Verify (e_net env) (e_verify env) (e_clock env) v block msg";
        cases "fst (Verify (e_net env) (e_verify env) (e_clock env) v block msg)") (simp_all add: check_hello_def)
  then show ?thesis using recorded_seen [OF rec] sd by simp
qed

text \<open>A signed HELLO that was accepted: its NodeID and its block, the same for everyone who accepts the frame.\<close>

lemma accepted_signed:
  assumes "hello_accepted env v caps f st" "hs_NegotiatedMinor st = 2"
  obtains ver peerCaps inner trailing block n where "f_Payload f = inner @ trailing" "DecodeSignatureBlock trailing = Ok (block, n)"
    "decodeHelloPayloadV02 (f_Payload f) = Ok (ver, hs_PeerNodeID st, peerCaps, trailing)" "2 \<le> ver_Minor ver"
    "\<And>env' v' caps' st'. hello_accepted env' v' caps' f st' \<Longrightarrow> signed_by env' v' (hs_PeerNodeID st) inner block"
proof -
  obtain ver peerCaps inner trailing where h:
      "f_Payload f = inner @ trailing" "decodeHelloPayloadV02 (f_Payload f) = Ok (ver, hs_PeerNodeID st, peerCaps, trailing)"
      "hs_NegotiatedMinor st = min (ver_Minor ver) (ver_Minor CurrentVersion)"
      "ver_Minor ver \<ge> 2 \<longrightarrow> (\<exists>block n. DecodeSignatureBlock trailing = Ok (block, n))"
    using assms(1) unfolding hello_accepted_def by blast
  have minor: "ver_Minor ver \<ge> 2" using h(3) assms(2) by (metis min.cobounded1)
  then obtain block n where b: "DecodeSignatureBlock trailing = Ok (block, n)" using h(4) by blast
  have "signed_by env' v' (hs_PeerNodeID st) inner block" if "hello_accepted env' v' caps' f st'" for env' v' caps' st'
    using that h(1,2) minor b unfolding hello_accepted_def by auto
  then show ?thesis by (rule that [OF h(1) b h(2) minor])
qed

text \<open>
  C9 (HELLO replay).  On a node that keeps one verifier and whose clock does not go back, a
  HELLO accepted at minor version 2 in one handshake completes no later one, however many
  handshakes with whatever peers come between: presenting the same frame again fails, on
  any connection and with any capabilities.  (A HELLO below minor version 2 is unsigned and
  leaves no trace, so it can be presented again.)
\<close>

theorem hello_replay_rejected:
  assumes "i < j" "j < length hs" "hs ! i = (envi, ctrli, cfgi)" "hs ! j = (envj, ctrlj, cfgj)"
    and "sorted (map (\<lambda>h. e_clock (fst h)) hs)" "\<forall>h \<in> set hs. clock_ok (e_clock (fst h))" "window_ok v"
    and "fst (run_calls shared_handshake v hs) ! i = Ok st" "hs_NegotiatedMinor st = 2"
    and "fst (readFrame (s_in ctrlj)) = fst (readFrame (s_in ctrli))"
  shows "fst (run_calls shared_handshake v hs) ! j \<noteq> Ok st'"
proof
  let ?s = "call_state shared_handshake v hs"
  assume "fst (run_calls shared_handshake v hs) ! j = Ok st'"
  then have "fst (shared_handshake (?s j) (envj, ctrlj, cfgj)) = Ok st'" using assms(2,4) by (simp add: run_calls_nth)
  then obtain f where f: "fst (readFrame (s_in ctrlj)) = Ok f" "hello_accepted envj (?s j) (nc_Capabilities cfgj) f st'"
    by (rule shared_handshake_Ok)
  have "fst (shared_handshake (?s i) (envi, ctrli, cfgi)) = Ok st" using assms(1-3,8) by (simp add: run_calls_nth)
  then obtain g where g: "fst (readFrame (s_in ctrli)) = Ok g" "hello_accepted envi (?s i) (nc_Capabilities cfgi) g st"
      "snd (shared_handshake (?s i) (envi, ctrli, cfgi)) = snd (check_hello envi (?s i) (nc_Capabilities cfgi) g)"
    by (rule shared_handshake_Ok)
  have "g = f" using f(1) g(1) assms(10) by simp
  note g = g [unfolded this]
  obtain ver peerCaps inner trailing block n where b: "f_Payload f = inner @ trailing" "DecodeSignatureBlock trailing = Ok (block, n)"
    "decodeHelloPayloadV02 (f_Payload f) = Ok (ver, hs_PeerNodeID st, peerCaps, trailing)" "2 \<le> ver_Minor ver"
    "\<And>env' v' caps' st'. hello_accepted env' v' caps' f st' \<Longrightarrow> signed_by env' v' (hs_PeerNodeID st) inner block"
    by (rule accepted_signed [OF g(2) assms(9)]) blast
  let ?ts = "sb_TimestampMS block"
  let ?P = "\<lambda>w. seen_at w (hs_PeerNodeID st) (sb_Nonce block) = Some ?ts \<and> v_Window w = v_Window v"
  have keep: "v_Window (snd (shared_handshake w (hs ! k))) = v_Window w" for w k
    using shared_handshake_verifier [of w] by (cases "hs ! k") (metis Verify_Window)
  have win: "v_Window (?s k) = v_Window v" if "k \<le> length hs" for k
    by (rule call_state_keeps [where i = 0 and P = "\<lambda>w. v_Window w = v_Window v"]) (use that keep in simp_all)
  have signed: "signed_by envj (?s j) (hs_PeerNodeID st) inner block" by (rule b(5) [OF f(2)])
  then have w: "in_window v (e_clock envj) ?ts" using win [of j] assms(2) by (simp add: signed_by_def in_window_def)
  have "?P (?s (Suc i))"
    using check_hello_records [OF g(2) b(1-4)] g(3) assms(1-3) win [of "Suc i"] by (simp add: call_state_Suc)
  then have "?P (?s j)"
  proof (rule call_state_keeps)
    fix k t
    assume k: "k < j" and t: "?P t"
    obtain env ctrl cfg where h: "hs ! k = (env, ctrl, cfg)" by (cases "hs ! k") auto
    have "e_clock env \<le> e_clock envj" "clock_ok (e_clock env)"
      using k h assms(2,4,5,6) sorted_nth_mono [of "map (\<lambda>h. e_clock (fst h)) hs" k j]
      by (auto dest!: bspec [OF _ nth_mem [of k hs]])
    then show "?P (snd (shared_handshake t (hs ! k)))"
      using t w assms(7) shared_handshake_keeps [of t "hs_PeerNodeID st" "sb_Nonce block" ?ts "e_clock envj" env ctrl cfg]
      by (simp add: h window_ok_def in_window_def)
  qed (use assms(1,2) in simp_all)
  then show False using signed by (simp add: signed_by_def)
qed

theorem hello_replay_rejected_witness:
  "\<exists>ctrl st. fst (run_calls shared_handshake NewVerifier
       [(sample_env, ctrl, sample_cfg True (replicate 32 1)), (sample_env, ctrl, sample_cfg True (replicate 32 1))]) ! 0 = Ok st \<and>
     fst (run_calls shared_handshake NewVerifier
       [(sample_env, ctrl, sample_cfg True (replicate 32 1)), (sample_env, ctrl, sample_cfg True (replicate 32 1))]) ! 1 \<noteq> Ok st"
proof -
  let ?cfg = "sample_cfg True (replicate 32 1)"
  let ?st = "\<lparr>hs_PeerNodeID = MakeDIDKey (replicate 32 2), hs_NegotiatedMinor = 2, hs_ActiveCapabilities = []\<rparr>"
  obtain ctrl where c: "fst (runHandshake sample_env ctrl ?cfg) = Ok ?st" by (rule sample_handshake)
  let ?hs = "[(sample_env, ctrl, ?cfg), (sample_env, ctrl, ?cfg)]"
  have "?cfg\<lparr>nc_Verifier := Some NewVerifier\<rparr> = ?cfg" by (simp add: sample_cfg_def)
  then have "fst (shared_handshake NewVerifier (sample_env, ctrl, ?cfg)) = Ok ?st"
    using c by (cases "runHandshake sample_env ctrl ?cfg") (simp add: shared_handshake_def)
  then have first: "fst (run_calls shared_handshake NewVerifier ?hs) ! 0 = Ok ?st"
    by (subst run_calls_nth) simp_all
  have "fst (run_calls shared_handshake NewVerifier ?hs) ! 1 \<noteq> Ok ?st"
    by (rule hello_replay_rejected [of 0 1 ?hs sample_env ctrl ?cfg sample_env ctrl ?cfg NewVerifier ?st])
       (use first window_ok_NewVerifier in \<open>simp_all add: clock_ok_def sample_env_def\<close>)
  with first show ?thesis by blast
qed

text \<open>
  No verifier, no memory.  A node configured without a verifier makes a new one for
  each handshake and drops it: the HELLO that completed one handshake completes every
  later one at the same clock reading, on any control stream that delivers it.
\<close>

theorem replay_without_verifier:
  assumes "nc_Verifier cfg = None" "runHandshake env ctrl cfg = (Ok st, ctrl', v')"
    and "fst (readFrame (s_in ctrl2)) = fst (readFrame (s_in ctrl))" "s_write ctrl2 = s_write ctrl"
  shows "v' = None \<and> fst (runHandshake env ctrl2 cfg) = Ok st"
proof -
  obtain payload ctrl1 f where r: "hello_payload env cfg = Ok payload"
    "Stream_SendFrame ctrl \<lparr>f_Type = FrameHello, f_Flags = 0, f_OpID = 0, f_Payload = payload\<rparr> = (Ok (), ctrl1)"
    "fst (readFrame (s_in ctrl)) = Ok f"
    by (rule runHandshake_Ok [OF assms(2)])
  have acc: "hello_accepted env (verifier_of cfg) (nc_Capabilities cfg) f st" "v' = None"
    using runHandshake_Ok_frame [OF assms(2) r(3)] assms(1) by simp_all
  obtain ctrl3 where "Stream_SendFrame ctrl2 \<lparr>f_Type = FrameHello, f_Flags = 0, f_OpID = 0, f_Payload = payload\<rparr> = (Ok (), ctrl3)"
    using r(2) assms(4) by (auto simp: Stream_SendFrame_def split: outcome.splits option.splits)
  then show ?thesis using r(3) assms(3) acc(2) runHandshake_accept [OF r(1) _ _ acc(1), of ctrl2] by simp
qed

theorem replay_without_verifier_witness:
  "\<exists>ctrl ctrl' st. runHandshake sample_env ctrl (sample_cfg False (replicate 32 1)) = (Ok st, ctrl', None) \<and>
     hs_NegotiatedMinor st = 2 \<and> fst (runHandshake sample_env ctrl (sample_cfg False (replicate 32 1))) = Ok st"
proof -
  let ?cfg = "sample_cfg False (replicate 32 1)"
  let ?st = "\<lparr>hs_PeerNodeID = MakeDIDKey (replicate 32 2), hs_NegotiatedMinor = 2, hs_ActiveCapabilities = []\<rparr>"
  obtain ctrl where "fst (runHandshake sample_env ctrl ?cfg) = Ok ?st" by (rule sample_handshake)
  then obtain ctrl' v' where r: "runHandshake sample_env ctrl ?cfg = (Ok ?st, ctrl', v')" by (metis prod.collapse)
  have "nc_Verifier ?cfg = None" by (simp add: sample_cfg_def)
  from replay_without_verifier [OF this r, of ctrl] r show ?thesis by fastforce
qed

section \<open>Connections run it once\<close>

lemma Conn_Close_simps [simp]: "c_state (Conn_Close c) = c_state c" "q_closed (c_qc (Conn_Close c))"
  by (simp_all add: Conn_Close_def)

text \<open>
  C15 (one handshake per connection).  A connection that has completed its handshake refuses
  another with an error that leaves it as it is, open and usable.  On any other connection
  success records the negotiated state and the control stream, and every error closes the
  connection and leaves it without a state, so no operation can be started on it.
\<close>

theorem conn_handshake_once:
  "case Conn_Handshake env c cfg of
     (Ok st, c', v) \<Rightarrow> c_state c = None \<and> Conn_State c' = Some st \<and> c_ctrl c' \<noteq> None \<and> q_closed (c_qc c') = q_closed (c_qc c)
   | (Err e, c', v) \<Rightarrow>
       (if c_state c \<noteq> None then c' = c else Conn_State c' = None \<and> q_closed (c_qc c'))
   | (Panic, c', v) \<Rightarrow> c_state c = None"
proof (cases "c_state c")
  case None
  let ?open = "if c_isClient c then OpenStreamSync c else AcceptStream_q c"
  have o: "c_state (snd ?open) = None" "q_closed (c_qc (snd ?open)) = q_closed (c_qc c)"
    using None by (simp_all add: OpenStreamSync_def AcceptStream_q_def)
  obtain s c1 where s: "?open = (s, c1)" by (cases ?open)
  show ?thesis
  proof (cases s)
    case (Ok qs)
    obtain r ctrl v where r: "runHandshake env qs cfg = (r, ctrl, v)" by (cases "runHandshake env qs cfg")
    then show ?thesis using None o s Ok
      by (cases r) (simp_all add: Conn_Handshake_def Conn_State_def)
  qed (use None o s in \<open>simp_all add: Conn_Handshake_def Conn_State_def\<close>)
qed (simp add: Conn_Handshake_def)

section \<open>Error codes and the errors of a handshake\<close>

definition ErrCodeIncompatibleVersion :: u64 where "ErrCodeIncompatibleVersion = 0x01"

definition ErrCodeMissingRequiredCapability :: u64 where "ErrCodeMissingRequiredCapability = 0x02"

definition ErrCodeMalformedFrame :: u64 where "ErrCodeMalformedFrame = 0x03"

definition ErrCodeProtocolViolation :: u64 where "ErrCodeProtocolViolation = 0x04"

text \<open>The sentinels that a check of the peer's HELLO can wrap.\<close>

definition hello_sentinels :: "error list" where
  "hello_sentinels = [ErrProtocolViolation, ErrMalformedHello, ErrIncompatibleVersion, ErrMissingRequiredCapability,
     ErrBadSignature, ErrKeyMismatch, ErrStaleTimestamp, ErrUnresolvableDID, ErrReplayedNonce]"

lemma caps_loop_Err: "caps_loop k payload pos acc = Err e \<Longrightarrow> \<exists>m. e = Wrap m ErrMalformedHello"
proof (induction k arbitrary: pos acc)
  case (Suc k)
  then show ?case
    by (auto simp: obind_eq_Err_iff on_err_eq_Err_iff cap_required_def Let_def index_def split: if_splits)
qed simp

lemma decodeHello_Err: "decodeHelloPayloadV02 payload = Err e \<Longrightarrow> \<exists>m. e = Wrap m ErrMalformedHello"
  by (auto simp: decodeHelloPayloadV02_def obind_eq_Err_iff on_err_eq_Err_iff make_caps_def slice_from_def Let_def
      split: if_splits dest: caps_loop_Err)

lemma Verify_Err:
  "fst (Verify net ed now v block msg) = Err e \<Longrightarrow>
   \<exists>m t. e = Wrap m t \<and> t \<in> {ErrBadSignature, ErrStaleTimestamp, ErrUnresolvableDID, ErrReplayedNonce}"
  by (auto simp: Verify_result obind_eq_Err_iff on_err_eq_Err_iff VerifyEd25519_def split: if_splits)

lemma AppendVarint_no_Err: "AppendVarint dst v \<noteq> Err e"
  by (simp add: AppendVarint_def Let_def)

lemma signedMessage_no_Err: "obind (subslice a b payload) (\<lambda>inner. signedMessageBytes ft inner block) \<noteq> Err e"
  by (auto simp: signedMessageBytes_def metaBytes_def appendString_def AppendVarint_no_Err subslice_def obind_eq_Err_iff
      split: if_splits)

text \<open>An error of the checks: one of the sentinels with a message.\<close>

definition hello_error :: "error \<Rightarrow> bool" where
  "hello_error e \<longleftrightarrow> (\<exists>m t. e = Wrap m t \<and> t \<in> set hello_sentinels)"

lemma hello_error_Wrap [simp]: "hello_error (Wrap m t) \<longleftrightarrow> t \<in> set hello_sentinels"
  by (simp add: hello_error_def)

lemma hello_signature_Err:
  assumes "fst (check_hello_signature env v payload peerNodeID trailing) = Err e"
  shows "hello_error e"
proof (cases "DecodeSignatureBlock trailing")
  case (Ok x)
  obtain block k where x: "x = (block, k)" by (cases x)
  let ?m = "obind (subslice 0 (length payload - length trailing) payload) (\<lambda>inner. signedMessageBytes FrameHello inner block)"
  show ?thesis
  proof (cases ?m)
    case (Ok msg)
    then show ?thesis using \<open>DecodeSignatureBlock trailing = Ok x\<close> x assms Verify_Err [of "e_net env" "e_verify env" "e_clock env" v block msg e]
      by (auto simp: check_hello_signature_def hello_sentinels_def Let_def split: if_splits)
  next
    case (Err e)
    then show ?thesis using signedMessage_no_Err by blast
  next
    case Panic
    then show ?thesis using \<open>DecodeSignatureBlock trailing = Ok x\<close> x assms
      by (auto simp: check_hello_signature_def hello_sentinels_def Let_def split: if_splits)
  qed
qed (use assms in \<open>auto simp: check_hello_signature_def hello_sentinels_def split: if_splits\<close>)

lemma NegotiateCapabilities_Err:
  "NegotiateCapabilities local peer = Err e \<Longrightarrow> \<exists>m t. e = Wrap m t \<and> t \<in> {ErrMalformedHello, ErrMissingRequiredCapability}"
  using required_loop_cases
  by (auto simp: NegotiateCapabilities_def indexCapabilities_cases Let_def split: if_splits option.splits)
   (metis option.distinct(1) option.inject)+

lemma check_hello_Err:
  assumes "fst (check_hello env v caps f) = Err e"
  shows "hello_error e"
proof (cases "decodeHelloPayloadV02 (f_Payload f)")
  case (Ok x)
  obtain peerVer peerNodeID peerCaps trailing where x: "x = (peerVer, peerNodeID, peerCaps, trailing)" by (cases x) auto
  obtain res w where c: "(if ver_Minor peerVer \<ge> 2 then check_hello_signature env v (f_Payload f) peerNodeID trailing
      else (Ok (), v)) = (res, w)" by (metis surj_pair)
  have sig: "hello_error e" if "res = Err e" for e
    using c that hello_signature_Err [of env v "f_Payload f" peerNodeID trailing e] by (auto split: if_splits)
  have neg: "hello_error e" if "NegotiateCapabilities caps peerCaps = Err e" for e
    using NegotiateCapabilities_Err [OF that] by (auto simp: hello_sentinels_def)
  show ?thesis using assms Ok x c sig neg
    by (cases res) (auto simp: check_hello_def hello_sentinels_def obind_eq_Err_iff Let_def split: if_splits)
next
  case (Err e')
  then show ?thesis using assms decodeHello_Err [OF Err] by (auto simp: check_hello_def hello_sentinels_def split: if_splits)
next
  case Panic
  then show ?thesis using assms by (auto simp: check_hello_def hello_sentinels_def split: if_splits)
qed

lemma signer_Err: "ephemeralSigner env = Err e \<Longrightarrow> \<exists>e'. e_keygen env = Err e' \<and> errors_Is e e'"
  by (auto simp: ephemeralSigner_def obind_eq_Err_iff on_err_eq_Err_iff NewEd25519DIDKeySigner_eq)

lemma append_caps_no_Err: "append_caps buf caps \<noteq> Err e"
  by (induction caps arbitrary: buf) (auto simp: obind_eq_Err_iff appendString_def AppendVarint_no_Err Let_def)

lemma buildSignedHello_no_Err: "buildSignedHello signer caps nonce t \<noteq> Err e"
  by (auto simp: buildSignedHello_def encodeHelloInner_def signedMessageBytes_def SignatureBlock_Encode_def metaBytes_def
      appendString_def obind_eq_Err_iff AppendVarint_no_Err append_caps_no_Err Let_def)

lemma hello_payload_Err:
  assumes "hello_payload env cfg = Err e"
  shows "\<exists>e'. (nc_Signer cfg = None \<and> e_keygen env = Err e' \<or> e_nonce env = Err e') \<and> errors_Is e e'"
proof (cases "nc_Signer cfg")
  case None
  then show ?thesis using assms signer_Err [of env e]
    by (auto simp: hello_payload_def obind_eq_Err_iff on_err_eq_Err_iff buildSignedHello_no_Err)
next
  case (Some signer)
  then show ?thesis using assms
    by (auto simp: hello_payload_def obind_eq_Err_iff on_err_eq_Err_iff buildSignedHello_no_Err)
qed

lemma SendFrame_Err:
  "fst (Stream_SendFrame ctrl f) = Err e \<Longrightarrow> \<exists>bs e'. Frame_Encode f = Ok bs \<and> s_write ctrl bs = Some e' \<and> errors_Is e e'"
  by (auto simp: Stream_SendFrame_def Frame_Encode_def Frame_AppendEncode_def obind_eq_Err_iff AppendVarint_no_Err
      split: outcome.splits option.splits)

text \<open>
  C16 (errors of a handshake).  Every error of a handshake says where it went wrong.  When
  the node has no HELLO to send, it wraps the error of the random source, from the key or
  the nonce; when the HELLO cannot be written, the error of that write; when no frame comes
  back, the error of the read; and once a frame has come back it wraps one of nine
  sentinels: a protocol violation, a malformed HELLO, an incompatible version, a missing
  capability, or one of the five identity errors.
\<close>

theorem handshake_errors_classified:
  assumes "fst (runHandshake env ctrl cfg) = Err e"
  shows "case hello_payload env cfg of
      Panic \<Rightarrow> False
    | Err _ \<Rightarrow> \<exists>e'. (nc_Signer cfg = None \<and> e_keygen env = Err e' \<or> e_nonce env = Err e') \<and> errors_Is e e'
    | Ok payload \<Rightarrow>
        (\<exists>bs. Frame_Encode \<lparr>f_Type = FrameHello, f_Flags = 0, f_OpID = 0, f_Payload = payload\<rparr> = Ok bs \<and>
          (case s_write ctrl bs of
             Some e' \<Rightarrow> errors_Is e e'
           | None \<Rightarrow>
               (case fst (readFrame (s_in ctrl)) of
                  Ok f \<Rightarrow> \<exists>t \<in> {ErrProtocolViolation, ErrMalformedHello, ErrIncompatibleVersion, ErrMissingRequiredCapability,
                        ErrBadSignature, ErrKeyMismatch, ErrStaleTimestamp, ErrUnresolvableDID, ErrReplayedNonce}. errors_Is e t
                | Err e' \<Rightarrow> errors_Is e e'
                | Panic \<Rightarrow> False)))"
proof (cases "hello_payload env cfg")
  case (Ok payload)
  let ?f = "\<lparr>f_Type = FrameHello, f_Flags = 0, f_OpID = 0, f_Payload = payload\<rparr>"
  obtain u ctrl1 where s: "Stream_SendFrame ctrl ?f = (u, ctrl1)" by (cases "Stream_SendFrame ctrl ?f")
  show ?thesis
  proof (cases u)
    case (Ok x)
    then have s: "Stream_SendFrame ctrl ?f = (Ok (), ctrl1)" using s by simp
    then obtain bs where bs: "Frame_Encode ?f = Ok bs" "s_write ctrl bs = None"
      by (auto simp: Stream_SendFrame_def split: outcome.splits option.splits)
    have in1: "s_in ctrl1 = s_in ctrl" using SendFrame_in [of ctrl ?f] s by simp
    obtain g r where g: "readFrame (s_in ctrl) = (g, r)" by (cases "readFrame (s_in ctrl)")
    note run = assms [unfolded runHandshake_sent [OF \<open>hello_payload env cfg = Ok payload\<close> s] Stream_RecvFrame_def in1 g]
    have "hello_error e" if "g = Ok f" for f
      using run that check_hello_Err [of env "verifier_of cfg" "nc_Capabilities cfg" f e] by (simp split: prod.splits)
    then show ?thesis using \<open>hello_payload env cfg = Ok payload\<close> bs g run
      by (cases g) (auto simp: hello_error_def hello_sentinels_def)
  next
    case (Err e')
    then have "e = Wrap ''aire: handshake: send HELLO'' e'"
      using assms \<open>hello_payload env cfg = Ok payload\<close> s by (simp add: runHandshake_def flip: hello_payload_def)
    then show ?thesis using \<open>hello_payload env cfg = Ok payload\<close> SendFrame_Err [of ctrl ?f e'] s Err by auto
  next
    case Panic
    then show ?thesis using assms \<open>hello_payload env cfg = Ok payload\<close> s by (simp add: runHandshake_def flip: hello_payload_def)
  qed
next
  case (Err e')
  then have "e = e'" using assms by (simp add: runHandshake_def flip: hello_payload_def)
  then show ?thesis using Err hello_payload_Err [OF Err] by simp
next
  case Panic
  then show ?thesis using assms by (simp add: runHandshake_def flip: hello_payload_def)
qed

theorem handshake_errors_classified_witness:
  "\<exists>ctrl cfg e. fst (readFrame (s_in ctrl)) = Ok \<lparr>f_Type = FrameStream, f_Flags = 0, f_OpID = 0, f_Payload = []\<rparr> \<and>
     fst (runHandshake sample_env ctrl cfg) = Err e \<and>
     (\<exists>t \<in> {ErrProtocolViolation, ErrMalformedHello, ErrIncompatibleVersion, ErrMissingRequiredCapability,
        ErrBadSignature, ErrKeyMismatch, ErrStaleTimestamp, ErrUnresolvableDID, ErrReplayedNonce}. errors_Is e t)"
proof -
  let ?cfg = "sample_cfg False (replicate 32 1)" and ?ctrl = "sample_stream [0x04, 0, 0, 0]"
  let ?g = "\<lparr>f_Type = FrameStream, f_Flags = 0, f_OpID = 0, f_Payload = []\<rparr>"
  obtain payload where p: "hello_payload sample_env ?cfg = Ok payload" "length payload \<le> 500"
    using sample_payload [of "replicate 32 1"] by auto
  let ?f = "\<lparr>f_Type = FrameHello, f_Flags = 0, f_OpID = 0, f_Payload = payload\<rparr>"
  have len: "length payload \<le> unat MaxFrameSize" using p(2) by (simp add: MaxFrameSize_def)
  have w: "\<forall>bs. s_write ?ctrl bs = None" by (simp add: sample_stream_def)
  have "Decode (pending (s_in ?ctrl)) = Ok (?g, 4)"
    by (simp add: pending_def sample_stream_def Decode_def from_pos_def ReadVarint_def subslice_def index_def MaxFrameSize_def)
  then have g: "fst (readFrame (s_in ?ctrl)) = Ok ?g" by (rule readFrame_Ok(1))
  have "Frame_wf ?f" using len by (simp add: Frame_wf_def)
  then obtain ctrl1 where s: "Stream_SendFrame ?ctrl ?f = (Ok (), ctrl1)" using SendFrame_Ok w by blast
  have "s_in ctrl1 = s_in ?ctrl" using SendFrame_in [of ?ctrl ?f] s by simp
  then have e: "fst (runHandshake sample_env ?ctrl ?cfg) = Err (Wrap ''expected HELLO'' ErrProtocolViolation)"
    using g by (cases "readFrame (s_in ?ctrl)") (simp add: runHandshake_sent [OF p(1) s] Stream_RecvFrame_def check_hello_def)
  show ?thesis using handshake_errors_classified [OF e] p(1) w g e
    by (intro exI [of _ ?ctrl] exI [of _ ?cfg]) auto
qed

end
