(* ===== verification/Conformance.thy ===== *)
theory Conformance imports Cancel Budget Handshake begin

text \<open>
  The wire-format vectors under \<^verbatim>\<open>testdata/\<close>, evaluated on the model: encoding the declared
  values gives the recorded bytes and decoding the bytes gives the values back, as the
  conformance tests of the repository ask of the implementation.
\<close>

definition nibble :: "char \<Rightarrow> nat" where
  "nibble c = (let n = of_char c in if n < 58 then n - 48 else n - 87)"

fun unhex :: "string \<Rightarrow> bytes" where
  "unhex (a # b # cs) = word_of_nat (16 * nibble a + nibble b) # unhex cs"
| "unhex _ = []"

definition frame_vector :: "byte \<Rightarrow> u64 \<Rightarrow> string \<Rightarrow> string \<Rightarrow> bool" where
  "frame_vector ty opID payload encoded \<longleftrightarrow>
     (let f = \<lparr>f_Type = ty, f_Flags = 0, f_OpID = opID, f_Payload = unhex payload\<rparr>; bs = unhex encoded in
      Frame_Encode f = Ok bs \<and> Decode bs = Ok (f, length bs))"

section \<open>Frames\<close>

lemma vector_empty_hello:
  "frame_vector FrameHello 0
     ''''
     ''01000000''"
  by code_simp

lemma vector_invoke_short_payload:
  "frame_vector FrameInvoke 42
     ''6869''
     ''03002a026869''"
  by code_simp

lemma vector_stream_large_opid:
  "frame_vector FrameStream 16384
     ''abababababababababababababababababababababababababababababababababababababababababababababababababababababababababababababababababababababababababababababababababababababababababababababababababababab''
     ''0400800040004064abababababababababababababababababababababababababababababababababababababababababababababababababababababababababababababababababababababababababababababababababababababababababababababababababababab''"
  by code_simp

lemma vector_cancel_op5:
  "frame_vector FrameCancel 5
     ''''
     ''05000500''"
  by code_simp

lemma vector_goodbye_control:
  "frame_vector FrameGoodbye 0
     ''''
     ''09000000''"
  by code_simp

lemma vector_invoke_8byte_opid:
  "frame_vector FrameInvoke 1152921504606846976
     ''''
     ''0300d00000000000000000''"
  by code_simp

lemma vector_hello_with_capability:
  "frame_vector FrameHello 0
     ''0001056e6f646531010e636f72652e73747265616d696e670101''
     ''0100001a0001056e6f646531010e636f72652e73747265616d696e670101''"
  by code_simp

lemma vector_cancel_user_no_detail:
  "frame_vector FrameCancel 5
     ''0000''
     ''050005020000''"
  by code_simp

lemma vector_cancel_upstream_with_detail:
  "frame_vector FrameCancel 10
     ''030d706172656e743a2041424f5254''
     ''05000a0f030d706172656e743a2041424f5254''"
  by code_simp

lemma vector_budget_tokens_cost_currency:
  "frame_vector FrameBudget 5
     ''03010243e8020253880303555344''
     ''0600050e03010243e8020253880303555344''"
  by code_simp

lemma vector_budget_deadline_only:
  "frame_vector FrameBudget 7
     ''010408000001a2ce8bd3ff''
     ''0600070b010408000001a2ce8bd3ff''"
  by code_simp

lemma vector_signed_hello_didkey:
  "frame_vector FrameHello 0
     ''0002386469643a6b65793a7a364d6b7157784d32337a766e464d7a366f5a6e576e504746396a64703467334a4c4b3254634a7a50476576564442590115616972652e6469642d6d6574686f642e6b65792f3101010140696469643a6b65793a7a364d6b7157784d32337a766e464d7a366f5a6e576e504746396a64703467334a4c4b3254634a7a5047657656444259237a364d6b7157784d32337a766e464d7a366f5a6e576e504746396a64703467334a4c4b3254634a7a5047657656444259000102030405060708090a0b0c0d0e0f0000019ecdba500040400e7f787a159f29e536c867f45896853e37f3c84d39d4874c84e846759fb351660be5d4e9052186b9d3b3869cefe28ddf1281f464f1d19f287b80551393072207''
     ''010000411a0002386469643a6b65793a7a364d6b7157784d32337a766e464d7a366f5a6e576e504746396a64703467334a4c4b3254634a7a50476576564442590115616972652e6469642d6d6574686f642e6b65792f3101010140696469643a6b65793a7a364d6b7157784d32337a766e464d7a366f5a6e576e504746396a64703467334a4c4b3254634a7a5047657656444259237a364d6b7157784d32337a766e464d7a366f5a6e576e504746396a64703467334a4c4b3254634a7a5047657656444259000102030405060708090a0b0c0d0e0f0000019ecdba500040400e7f787a159f29e536c867f45896853e37f3c84d39d4874c84e846759fb351660be5d4e9052186b9d3b3869cefe28ddf1281f464f1d19f287b80551393072207''"
  by code_simp

section \<open>Payloads\<close>

lemma vector_hello_payload:
  "encodeHelloInner \<lparr>ver_Major = 0, ver_Minor = 1\<rparr> ''node1''
     [\<lparr>cap_Name = ''core.streaming'', cap_Version = 1, cap_Required = True\<rparr>] =
   Ok (unhex ''0001056e6f646531010e636f72652e73747265616d696e670101'')"
  by code_simp

lemma vector_cancel_payloads:
  "Cancel_Encode \<lparr>c_Reason = ReasonUserCancelled, c_Detail = ''''\<rparr> = Ok (unhex ''0000'')"
  "Cancel_Encode \<lparr>c_Reason = ReasonUpstreamCancelled, c_Detail = ''parent: ABORT''\<rparr> =
     Ok (unhex ''030d706172656e743a2041424f5254'')"
  "CancelReason_String ReasonUserCancelled = ''USER_CANCELLED''"
  "CancelReason_String ReasonUpstreamCancelled = ''UPSTREAM_CANCELLED''"
  by code_simp+

lemma vector_budget_payloads:
  "Budget_Encode \<lparr>b_Tokens = Some 1000, b_CostMicrounits = Some 5000, b_Currency = ''USD'', b_DeadlineMS = None\<rparr> =
     Ok (unhex ''03010243e8020253880303555344'')"
  "Budget_Encode \<lparr>b_Tokens = None, b_CostMicrounits = None, b_Currency = '''', b_DeadlineMS = Some 1798761599999\<rparr> =
     Ok (unhex ''010408000001a2ce8bd3ff'')"
  by code_simp+

section \<open>The signed HELLO\<close>

definition vector_did :: string where
  "vector_did = ''did:key:z6MkqWxM23zvnFMz6oZnWnPGF9jdp4g3JLK2TcJzPGevVDBY''"

definition vector_caps :: "Capability list" where
  "vector_caps = [\<lparr>cap_Name = CapDIDMethodKey, cap_Version = 1, cap_Required = True\<rparr>]"

definition vector_block :: SignatureBlock where
  "vector_block = \<lparr>sb_Algorithm = SigAlgEd25519, sb_VMID = vector_did @ ''#z6MkqWxM23zvnFMz6oZnWnPGF9jdp4g3JLK2TcJzPGevVDBY'',
     sb_Nonce = unhex ''000102030405060708090a0b0c0d0e0f'', sb_TimestampMS = 1781568000000,
     sb_Signature = unhex ''0e7f787a159f29e536c867f45896853e37f3c84d39d4874c84e846759fb351660be5d4e9052186b9d3b3869cefe28ddf1281f464f1d19f287b80551393072207''\<rparr>"

definition vector_inner :: bytes where
  "vector_inner = unhex ''0002386469643a6b65793a7a364d6b7157784d32337a766e464d7a366f5a6e576e504746396a64703467334a4c4b3254634a7a50476576564442590115616972652e6469642d6d6574686f642e6b65792f310101''"

lemma Int_Bytes_step: "n > 0 \<Longrightarrow> Int_Bytes n = Int_Bytes (n div 256) @ [word_of_nat (n mod 256)]" "Int_Bytes 0 = []"
  by (simp_all add: Int_Bytes.simps)

lemma vector_base58:
  "base58btcDecode ''6MkqWxM23zvnFMz6oZnWnPGF9jdp4g3JLK2TcJzPGevVDBY'' =
   Ok [0xed, 0x01, 0xa4, 0x62, 0xdd, 0xd3, 0xbe, 0x2c, 0xa5, 0x7e, 0xba, 0xf4, 0xe5, 0x7b, 0xb4, 0x5a, 0x1c, 0x10, 0x0b, 0xf4, 0xee, 0x4a, 0x72, 0x1d, 0xc9, 0xd2, 0x88, 0x68, 0xf5, 0x78, 0x9d, 0x92, 0x74, 0xa3]"
  by (simp add: base58btcDecode_def b58Alphabet_def Int_Bytes_step)

lemma vector_did_key: "MakeDIDKey (unhex ''a462ddd3be2ca57ebaf4e57bb45a1c100bf4ee4a721dc9d28868f5789d9274a3'') = vector_did"
proof -
  have "ed25519PubMulticodec @ unhex ''a462ddd3be2ca57ebaf4e57bb45a1c100bf4ee4a721dc9d28868f5789d9274a3'' = [0xed, 0x01, 0xa4, 0x62, 0xdd, 0xd3, 0xbe, 0x2c, 0xa5, 0x7e, 0xba, 0xf4, 0xe5, 0x7b, 0xb4, 0x5a, 0x1c, 0x10, 0x0b, 0xf4, 0xee, 0x4a, 0x72, 0x1d, 0xc9, 0xd2, 0x88, 0x68, 0xf5, 0x78, 0x9d, 0x92, 0x74, 0xa3]"
    by code_simp
  then show ?thesis
    using base58btcEncode_Decode [OF vector_base58]
    by (simp add: MakeDIDKey_def encodeMultibaseEd25519_def didKeyPrefix_def vector_did_def del: unhex.simps)
qed

lemma vector_hello_inner: "encodeHelloInner CurrentVersion vector_did vector_caps = Ok vector_inner"
  by code_simp

lemma vector_signed_message:
  "signedMessageBytes FrameHello vector_inner vector_block = Ok (unhex ''414952452d5349472d763100010002386469643a6b65793a7a364d6b7157784d32337a766e464d7a366f5a6e576e504746396a64703467334a4c4b3254634a7a50476576564442590115616972652e6469642d6d6574686f642e6b65792f3101010140696469643a6b65793a7a364d6b7157784d32337a766e464d7a366f5a6e576e504746396a64703467334a4c4b3254634a7a5047657656444259237a364d6b7157784d32337a766e464d7a366f5a6e576e504746396a64703467334a4c4b3254634a7a5047657656444259000102030405060708090a0b0c0d0e0f0000019ecdba5000'')"
  by code_simp

lemma vector_signature_block:
  "SignatureBlock_Encode vector_block = Ok (unhex ''0140696469643a6b65793a7a364d6b7157784d32337a766e464d7a366f5a6e576e504746396a64703467334a4c4b3254634a7a5047657656444259237a364d6b7157784d32337a766e464d7a366f5a6e576e504746396a64703467334a4c4b3254634a7a5047657656444259000102030405060708090a0b0c0d0e0f0000019ecdba500040400e7f787a159f29e536c867f45896853e37f3c84d39d4874c84e846759fb351660be5d4e9052186b9d3b3869cefe28ddf1281f464f1d19f287b80551393072207'')"
  by code_simp

end
