(* ===== verification/Operation.thy ===== *)
theory Operation imports Handshake begin

text \<open>
  \<^verbatim>\<open>operation.go\<close>: one logical task on one QUIC stream.  Frames sent are stamped with the
  operation's number, frames received are checked against it, and the peer's NodeID comes
  from the handshake of the connection.
\<close>

record Operation =
  op_OpID :: u64
  op_stream :: Stream
  op_conn :: "Conn option"

definition Operation_PeerNodeID :: "Operation \<Rightarrow> string" where
  "Operation_PeerNodeID op =
     (case op_conn op of
        None \<Rightarrow> ''''
      | Some c \<Rightarrow> (case c_state c of None \<Rightarrow> '''' | Some st \<Rightarrow> hs_PeerNodeID st))"

definition NewOperation :: "Conn \<Rightarrow> Operation outcome \<times> Conn" where
  "NewOperation c =
     (if c_state c = None then (Err (Errorf ''aire: NewOperation: handshake not completed''), c)
      else case Conn_OpenStream c of
        (Err e, c) \<Rightarrow> (Err e, c)
      | (Panic, c) \<Rightarrow> (Panic, c)
      | (Ok stream, c) \<Rightarrow> (Ok \<lparr>op_OpID = s_ID stream, op_stream = stream, op_conn = Some c\<rparr>, c))"

definition AcceptOperation :: "Conn \<Rightarrow> Operation outcome \<times> Conn" where
  "AcceptOperation c =
     (if c_state c = None then (Err (Errorf ''aire: AcceptOperation: handshake not completed''), c)
      else case Conn_AcceptStream c of
        (Err e, c) \<Rightarrow> (Err e, c)
      | (Panic, c) \<Rightarrow> (Panic, c)
      | (Ok stream, c) \<Rightarrow> (Ok \<lparr>op_OpID = s_ID stream, op_stream = stream, op_conn = Some c\<rparr>, c))"

definition Operation_Send :: "Operation \<Rightarrow> Frame \<Rightarrow> unit outcome \<times> Operation" where
  "Operation_Send op f =
     (let f = f\<lparr>f_OpID := op_OpID op\<rparr> in
      case Stream_SendFrame (op_stream op) f of (res, s) \<Rightarrow> (res, op\<lparr>op_stream := s\<rparr>))"

text \<open>
  \<^verbatim>\<open>Recv\<close> returns a frame beside its error: the empty frame when none was read, the offending
  one when the numbers differ.  Its callers look at the frame only when there is no error;
  \<open>Operation_Recv\<close> is what they see of it.
\<close>

definition zero_Frame :: Frame where
  "zero_Frame = \<lparr>f_Type = 0, f_Flags = 0, f_OpID = 0, f_Payload = []\<rparr>"

definition Operation_Recv_frame :: "Operation \<Rightarrow> (Frame \<times> error option) outcome \<times> Operation" where
  "Operation_Recv_frame op =
     (case Stream_RecvFrame (op_stream op) of
        (Ok f, s) \<Rightarrow>
          (if f_OpID f \<noteq> op_OpID op then Ok (f, Some (Wrap ''frame OpID'' ErrProtocolViolation)) else Ok (f, None),
           op\<lparr>op_stream := s\<rparr>)
      | (Err e, s) \<Rightarrow> (Ok (zero_Frame, Some e), op\<lparr>op_stream := s\<rparr>)
      | (Panic, s) \<Rightarrow> (Panic, op\<lparr>op_stream := s\<rparr>))"

definition Operation_Recv :: "Operation \<Rightarrow> Frame outcome \<times> Operation" where
  "Operation_Recv op =
     (case Operation_Recv_frame op of
        (res, op) \<Rightarrow> (obind res (\<lambda>(f, err). case err of None \<Rightarrow> Ok f | Some e \<Rightarrow> Err e), op))"

definition Operation_Close :: "Operation \<Rightarrow> Operation" where
  "Operation_Close op = op\<lparr>op_stream := Stream_Close (op_stream op)\<rparr>"

section \<open>Properties\<close>

lemma Operation_Recv_eq:
  "Operation_Recv op =
     (case Stream_RecvFrame (op_stream op) of
        (Ok f, s) \<Rightarrow>
          (if f_OpID f \<noteq> op_OpID op then Err (Wrap ''frame OpID'' ErrProtocolViolation) else Ok f,
           op\<lparr>op_stream := s\<rparr>)
      | (Err e, s) \<Rightarrow> (Err e, op\<lparr>op_stream := s\<rparr>)
      | (Panic, s) \<Rightarrow> (Panic, op\<lparr>op_stream := s\<rparr>))"
  by (simp add: Operation_Recv_def Operation_Recv_frame_def split: prod.splits outcome.splits)

lemma Recv_no_panic: "fst (Operation_Recv op) \<noteq> Panic"
  using readFrame_no_panic [of "s_in (op_stream op)"]
  by (auto simp: Operation_Recv_eq Stream_RecvFrame_def split: prod.splits outcome.splits)

lemma Send_sent:
  "Operation_Send op f = (Ok (), op') \<Longrightarrow>
   \<exists>bs. Frame_Encode (f\<lparr>f_OpID := op_OpID op\<rparr>) = Ok bs \<and> s_sent (op_stream op') = s_sent (op_stream op) @ [bs] \<and>
        op_OpID op' = op_OpID op \<and> op_conn op' = op_conn op"
  by (auto simp: Operation_Send_def Stream_SendFrame_def Let_def split: outcome.splits option.splits)

lemma Recv_delivered:
  assumes "Decode (pending (s_in (op_stream op))) = Ok (f, n)" "f_OpID f = op_OpID op"
  shows "fst (Operation_Recv op) = Ok f" "pending (s_in (op_stream (snd (Operation_Recv op)))) = drop n (pending (s_in (op_stream op)))"
proof -
  obtain r where "readFrame (s_in (op_stream op)) = (Ok f, r)" "pending r = drop n (pending (s_in (op_stream op)))"
    using readFrame_Ok [OF assms(1)] by (cases "readFrame (s_in (op_stream op))") auto
  then show "fst (Operation_Recv op) = Ok f"
      "pending (s_in (op_stream (snd (Operation_Recv op)))) = drop n (pending (s_in (op_stream op)))"
    using assms(2) by (simp_all add: Operation_Recv_eq Stream_RecvFrame_def)
qed

lemma Recv_Ok_iff:
  "fst (Operation_Recv op) = Ok f \<longleftrightarrow> f_OpID f = op_OpID op \<and> (\<exists>n. Decode (pending (s_in (op_stream op))) = Ok (f, n))"
proof -
  obtain x r where x: "readFrame (s_in (op_stream op)) = (x, r)" by (cases "readFrame (s_in (op_stream op))")
  then show ?thesis unfolding readFrame_Ok_iff [symmetric]
    by (cases x) (auto simp: Operation_Recv_eq Stream_RecvFrame_def)
qed

lemma PeerNodeID_opened:
  "NewOperation c = (Ok op, c') \<Longrightarrow>
     \<exists>st. c_state c = Some st \<and> c_state c' = Some st \<and> op_conn op = Some c' \<and> Operation_PeerNodeID op = hs_PeerNodeID st"
  "AcceptOperation c = (Ok op, c') \<Longrightarrow>
     \<exists>st. c_state c = Some st \<and> c_state c' = Some st \<and> op_conn op = Some c' \<and> Operation_PeerNodeID op = hs_PeerNodeID st"
  by (auto simp: NewOperation_def AcceptOperation_def Conn_OpenStream_def Conn_AcceptStream_def OpenStreamSync_def
      AcceptStream_q_def Operation_PeerNodeID_def on_err_eq_Err_iff split: if_splits outcome.splits)

lemma operation_received:
  assumes "Operation_Send op f = (Ok (), op')" "op_OpID op \<le> MaxVarint" "length (f_Payload f) \<le> unat MaxFrameSize"
    and "op_OpID peer = op_OpID op" "s_sent (op_stream op') = s_sent (op_stream op) @ [bs]"
    and "concat (rd_chunks (s_in (op_stream peer))) = bs @ rest"
  shows "fst (Operation_Recv peer) = Ok (f\<lparr>f_OpID := op_OpID op\<rparr>)"
proof -
  let ?f = "f\<lparr>f_OpID := op_OpID op\<rparr>"
  have "Frame_Encode ?f = Ok bs" using Send_sent [OF assms(1)] assms(5) by auto
  moreover have "Frame_wf ?f" using assms(2,3) by (simp add: Frame_wf_def)
  ultimately have "Decode (pending (s_in (op_stream peer))) = Ok (?f, length bs)"
    unfolding pending_def assms(6) by (intro frame.dec_enc_append)
  then show ?thesis by (rule Recv_delivered(1)) (simp add: assms(4))
qed

text \<open>
  Frames of an operation.  A frame sent on an operation reaches the operation at the
  other end of the stream with that operation's number, whatever number the caller put in,
  and everything else as sent, however the bytes are chunked.
\<close>

theorem operation_send_recv:
  assumes "Operation_Send op f = (Ok (), op')" "op_OpID op \<le> MaxVarint" "length (f_Payload f) \<le> unat MaxFrameSize"
    and "op_OpID peer = op_OpID op" "s_sent (op_stream op') = s_sent (op_stream op) @ [bs]"
    and "concat (rd_chunks (s_in (op_stream peer))) = bs @ rest"
  shows "fst (Operation_Recv peer) = Ok (f\<lparr>f_OpID := op_OpID op\<rparr>)"
  using assms by (rule operation_received)

theorem operation_send_recv_witness:
  "\<exists>peer. op_OpID peer = 4 \<and>
     fst (Operation_Recv peer) = Ok \<lparr>f_Type = FrameStream, f_Flags = 0, f_OpID = 4, f_Payload = [1]\<rparr>"
proof -
  let ?op = "\<lparr>op_OpID = 4, op_stream = sample_stream [], op_conn = None\<rparr>"
  let ?f = "\<lparr>f_Type = FrameStream, f_Flags = 0, f_OpID = 99, f_Payload = [1]\<rparr>"
  let ?bs = "[0x04, 0, 4, 1, 1] :: bytes"
  let ?peer = "\<lparr>op_OpID = 4, op_stream = sample_stream ?bs, op_conn = None\<rparr>"
  have e: "Frame_Encode (?f\<lparr>f_OpID := 4\<rparr>) = Ok ?bs"
    by (simp add: Frame_Encode_def Frame_AppendEncode_def AppendVarint_def MaxVarint_def)
  let ?op' = "\<lparr>op_OpID = 4, op_stream = (sample_stream [])\<lparr>s_sent := [?bs]\<rparr>, op_conn = None\<rparr>"
  have s: "Operation_Send ?op ?f = (Ok (), ?op')"
    using e by (simp add: Operation_Send_def Stream_SendFrame_def sample_stream_def)
  have "fst (Operation_Recv ?peer) = Ok (?f\<lparr>f_OpID := op_OpID ?op\<rparr>)"
    by (rule operation_send_recv [OF s, of _ ?bs "[]"]) (simp_all add: MaxVarint_def sample_stream_def)
  then show ?thesis by (intro exI [of _ ?peer]) simp
qed

text \<open>
  C17 (received frames belong to the operation).  Receiving never panics.  It returns without
  an error exactly when the bytes waiting on the stream start with a whole frame that
  carries the operation's number, and it then hands over that frame and leaves what follows
  it; a whole frame with another number comes back beside a protocol violation.  The type of
  the frame is not looked at: the reserved type 2 is handed over like any other.
\<close>

theorem operation_recv_checked:
  "fst (Operation_Recv_frame op) \<noteq> Panic \<and>
   (fst (Operation_Recv_frame op) = Ok (f, None) \<longleftrightarrow>
      f_OpID f = op_OpID op \<and> (\<exists>n. Decode (pending (s_in (op_stream op))) = Ok (f, n))) \<and>
   (Decode (pending (s_in (op_stream op))) = Ok (g, n) \<longrightarrow>
      pending (s_in (op_stream (snd (Operation_Recv_frame op)))) = drop n (pending (s_in (op_stream op))) \<and>
      (f_OpID g \<noteq> op_OpID op \<longrightarrow>
         fst (Operation_Recv_frame op) = Ok (g, Some (Wrap ''frame OpID'' ErrProtocolViolation))))"
proof -
  let ?r = "s_in (op_stream op)"
  obtain x r where x: "readFrame ?r = (x, r)" by (cases "readFrame ?r")
  show ?thesis
  proof (cases "Decode (pending ?r)")
    case (Ok y)
    then obtain h k where d: "Decode (pending ?r) = Ok (h, k)" by (cases y) auto
    show ?thesis using d readFrame_Ok [OF d] x by (auto simp: Operation_Recv_frame_def Stream_RecvFrame_def)
  next
    case (Err e)
    then have "\<exists>e'. x = Err e'" using read_frame_Err [of ?r] x by simp
    then show ?thesis using Err x by (auto simp: Operation_Recv_frame_def Stream_RecvFrame_def)
  next
    case Panic
    then show ?thesis using Decode_no_panic by blast
  qed
qed

theorem operation_recv_checked_witness:
  "fst (Operation_Recv_frame \<lparr>op_OpID = 8, op_stream = sample_stream [0x04, 0, 4, 1, 1], op_conn = None\<rparr>) =
     Ok (\<lparr>f_Type = 4, f_Flags = 0, f_OpID = 4, f_Payload = [1]\<rparr>, Some (Wrap ''frame OpID'' ErrProtocolViolation)) \<and>
   fst (Operation_Recv_frame \<lparr>op_OpID = 4, op_stream = sample_stream [0x02, 0, 4, 1, 1], op_conn = None\<rparr>) =
     Ok (\<lparr>f_Type = 2, f_Flags = 0, f_OpID = 4, f_Payload = [1]\<rparr>, None)"
proof
  let ?op = "\<lparr>op_OpID = 8, op_stream = sample_stream [0x04, 0, 4, 1, 1], op_conn = None\<rparr>"
  let ?f = "\<lparr>f_Type = 4, f_Flags = 0, f_OpID = 4, f_Payload = [1]\<rparr>"
  have "Decode (pending (s_in (op_stream ?op))) = Ok (?f, 5)"
    by (simp add: pending_def sample_stream_def Decode_def from_pos_def ReadVarint_def subslice_def index_def MaxFrameSize_def)
  then show "fst (Operation_Recv_frame ?op) = Ok (?f, Some (Wrap ''frame OpID'' ErrProtocolViolation))"
    using operation_recv_checked [of ?op ?f ?f 5] by simp
  let ?op' = "\<lparr>op_OpID = 4, op_stream = sample_stream [0x02, 0, 4, 1, 1], op_conn = None\<rparr>"
  let ?g = "\<lparr>f_Type = 2, f_Flags = 0, f_OpID = 4, f_Payload = [1]\<rparr>"
  have "Decode (pending (s_in (op_stream ?op'))) = Ok (?g, 5)"
    by (simp add: pending_def sample_stream_def Decode_def from_pos_def ReadVarint_def subslice_def index_def MaxFrameSize_def)
  then show "fst (Operation_Recv_frame ?op') = Ok (?g, None)" using operation_recv_checked [of ?op' ?g ?g 5] by simp
qed

text \<open>
  C18 (operations need a handshake).  An operation, opened or accepted, exists only on a
  connection that completed its handshake and reports the NodeID of that handshake;
  before it no stream is opened or accepted at all.
\<close>

theorem operation_identity:
  "(fst (NewOperation c) = Ok op \<or> fst (AcceptOperation c) = Ok op \<longrightarrow>
      (\<exists>st. c_state c = Some st \<and> Operation_PeerNodeID op = hs_PeerNodeID st)) \<and>
   (c_state c = None \<longrightarrow> snd (NewOperation c) = c \<and> snd (AcceptOperation c) = c)"
proof
  show "fst (NewOperation c) = Ok op \<or> fst (AcceptOperation c) = Ok op \<longrightarrow>
      (\<exists>st. c_state c = Some st \<and> Operation_PeerNodeID op = hs_PeerNodeID st)"
    using PeerNodeID_opened [of c op] by (metis prod.collapse)
qed (simp add: NewOperation_def AcceptOperation_def)

theorem operation_identity_witness:
  "\<exists>op. fst (NewOperation \<lparr>c_qc = \<lparr>q_open = (\<lambda>_. Ok (sample_stream [])), q_accept = (\<lambda>_. Err EOF), q_opened = 1, q_accepted = 0, q_closed = False\<rparr>,
     c_isClient = True, c_ctrl = None,
     c_state = Some \<lparr>hs_PeerNodeID = ''did:web:a'', hs_NegotiatedMinor = 2, hs_ActiveCapabilities = []\<rparr>\<rparr>) = Ok op \<and>
     Operation_PeerNodeID op = ''did:web:a''"
proof -
  let ?c = "\<lparr>c_qc = \<lparr>q_open = (\<lambda>_. Ok (sample_stream [])), q_accept = (\<lambda>_. Err EOF), q_opened = 1, q_accepted = 0, q_closed = False\<rparr>,
     c_isClient = True, c_ctrl = None,
     c_state = Some \<lparr>hs_PeerNodeID = ''did:web:a'', hs_NegotiatedMinor = 2, hs_ActiveCapabilities = []\<rparr>\<rparr>"
  obtain op where "fst (NewOperation ?c) = Ok op"
    by (simp add: NewOperation_def Conn_OpenStream_def OpenStreamSync_def)
  then show ?thesis using operation_identity [of ?c op] by auto
qed

end
