(* ===== verification/Node.thy ===== *)
theory Node imports Operation begin

text \<open>
  \<^verbatim>\<open>node.go\<close>: the INVOKE payload, the registry of agents and the dispatch of one inbound
  operation, with the client side \<^verbatim>\<open>Invoke\<close>.  An agent is what its \<^verbatim>\<open>Handle\<close> method leaves of
  the operation it is given; the error it returns is dropped by the node.  The goroutines
  of a node are in the theory of its life cycle.
\<close>

section \<open>The INVOKE payload\<close>

definition encodeInvokePayload :: "string \<Rightarrow> string \<Rightarrow> bytes \<Rightarrow> bytes outcome" where
  "encodeInvokePayload agentID opName args =
     obind (appendString [] agentID) (\<lambda>buf.
     obind (appendString buf opName) (\<lambda>buf.
     Ok (buf @ args)))"

definition decodeInvokePayload :: "bytes \<Rightarrow> (string \<times> string \<times> bytes) outcome" where
  "decodeInvokePayload payload =
     obind (on_err (Wrap ''aire: INVOKE: agent-id'') (readString payload)) (\<lambda>(agentID, n).
     obind (on_err (Wrap ''aire: INVOKE: operation'') (from_pos n payload readString)) (\<lambda>(opName, m).
     obind (slice_from (n + m) payload) (\<lambda>args.
     Ok (agentID, opName, args))))"

section \<open>Agents and dispatch\<close>

record Invoke =
  inv_AgentID :: string
  inv_Operation :: string
  inv_Args :: bytes
  inv_Op :: Operation
  inv_PeerNodeID :: string

type_synonym agent = "Invoke \<Rightarrow> error option \<times> Operation"

record Node =
  n_cfg :: NodeConfig
  n_agents :: "string \<rightharpoonup> agent"

definition NewNode :: "NodeConfig \<Rightarrow> Node" where
  "NewNode cfg = \<lparr>n_cfg = cfg, n_agents = Map.empty\<rparr>"

text \<open>A nil agent is \<open>None\<close>.\<close>

definition RegisterAgent :: "Node \<Rightarrow> string \<Rightarrow> agent option \<Rightarrow> error option \<times> Node" where
  "RegisterAgent n aid a =
     (if aid = '''' then (Some (Errorf ''aire: RegisterAgent: empty ID''), n)
      else case a of
        None \<Rightarrow> (Some (Errorf ''aire: RegisterAgent: nil Agent''), n)
      | Some a \<Rightarrow>
          if n_agents n aid \<noteq> None then (Some (Errorf ''aire: RegisterAgent: already registered''), n)
          else (None, n\<lparr>n_agents := (n_agents n)(aid \<mapsto> a)\<rparr>))"

text \<open>
  The invocation handed to an agent, if any, and the operation afterwards.  Receiving and
  decoding never panic (\<open>Recv_no_panic\<close>, \<open>decodeInvokePayload_no_panic\<close>), so the other branches
  are those of their errors.
\<close>

definition handleOperation :: "Node \<Rightarrow> Operation \<Rightarrow> Invoke option \<times> Operation" where
  "handleOperation n op =
     (case Operation_Recv op of
        (Ok f, op) \<Rightarrow>
          if f_Type f \<noteq> FrameInvoke then (None, Operation_Close op)
          else (case decodeInvokePayload (f_Payload f) of
              Ok (agentID, opName, args) \<Rightarrow>
                (case n_agents n agentID of
                   None \<Rightarrow> (None, Operation_Close op)
                 | Some agent \<Rightarrow>
                     let inv = \<lparr>inv_AgentID = agentID, inv_Operation = opName, inv_Args = args, inv_Op = op,
                                inv_PeerNodeID = Operation_PeerNodeID op\<rparr> in
                     (Some inv, Operation_Close (snd (agent inv))))
            | _ \<Rightarrow> (None, Operation_Close op))
      | (_, op) \<Rightarrow> (None, Operation_Close op))"

text \<open>When the send fails the new operation is closed and dropped, so no caller sees it again.\<close>

definition Conn_Invoke :: "Conn \<Rightarrow> string \<Rightarrow> string \<Rightarrow> bytes \<Rightarrow> Operation outcome \<times> Conn" where
  "Conn_Invoke c agentID opName args =
     (case NewOperation c of
        (Err e, c) \<Rightarrow> (Err e, c)
      | (Panic, c) \<Rightarrow> (Panic, c)
      | (Ok op, c) \<Rightarrow>
          (case encodeInvokePayload agentID opName args of
             Err e \<Rightarrow> (Err e, c)
           | Panic \<Rightarrow> (Panic, c)
           | Ok payload \<Rightarrow>
               (case Operation_Send op \<lparr>f_Type = FrameInvoke, f_Flags = 0, f_OpID = 0, f_Payload = payload\<rparr> of
                  (Ok _, op) \<Rightarrow> (Ok op, c)
                | (Err e, op) \<Rightarrow> (Err e, c)
                | (Panic, op) \<Rightarrow> (Panic, c))))"

section \<open>The payload codec\<close>

definition invoke_bytes :: "string \<times> string \<times> bytes \<Rightarrow> bytes" where
  "invoke_bytes = (\<lambda>(agentID, opName, args). wire_string agentID @ wire_string opName @ args)"

definition invoke_wf :: "string \<times> string \<times> bytes \<Rightarrow> bool" where
  "invoke_wf = (\<lambda>(agentID, opName, args). length agentID < 2 ^ 62 \<and> length opName < 2 ^ 62)"

lemma encodeInvokePayload_Ok:
  "length agentID < 2 ^ 62 \<Longrightarrow> length opName < 2 ^ 62 \<Longrightarrow>
   encodeInvokePayload agentID opName args = Ok (wire_string agentID @ wire_string opName @ args)"
  by (simp add: encodeInvokePayload_def wire_simps)

lemma decodeInvokePayload_wire:
  "length agentID < 2 ^ 62 \<Longrightarrow> length opName < 2 ^ 62 \<Longrightarrow>
   decodeInvokePayload (wire_string agentID @ wire_string opName @ args) = Ok (agentID, opName, args)"
  by (simp add: decodeInvokePayload_def wire_simps)

lemma decodeInvokePayload_no_panic: "decodeInvokePayload payload \<noteq> Panic"
  using readString_no_panic
  by (auto simp: decodeInvokePayload_def obind_eq_Panic_iff from_pos_def slice_from_def
      dest: wstring.dec_bounds split: if_splits)

interpretation invoke: payload_codec decodeInvokePayload
  "\<lambda>(agentID, opName, args). encodeInvokePayload agentID opName args" invoke_wf
  by unfold_locales
     (auto simp: decodeInvokePayload_no_panic invoke_wf_def encodeInvokePayload_Ok decodeInvokePayload_wire)

lemma decodeInvokePayload_wf: "decodeInvokePayload payload = Ok x \<Longrightarrow> invoke_wf x"
  by (auto simp: decodeInvokePayload_def obind_eq_Ok_iff invoke_wf_def wstring.from_pos_Ok_iff dest: readString_length_varint)

interpretation invoke_typed: typed_payload_codec decodeInvokePayload
  "\<lambda>(agentID, opName, args). encodeInvokePayload agentID opName args" invoke_wf
  by unfold_locales (rule decodeInvokePayload_wf)

text \<open>
  INVOKE round trip.  Any agent id, operation name and argument bytes survive encoding
  and decoding, so distinct invocations never share a payload; decoding never panics.
\<close>

theorem invoke_roundtrip:
  assumes "length agentID < 2 ^ 62" "length opName < 2 ^ 62"
  shows "\<exists>bs. encodeInvokePayload agentID opName args = Ok bs \<and>
              decodeInvokePayload bs = Ok (agentID, opName, args)"
  using invoke.payload_roundtrip [of "(agentID, opName, args)"] assms by (simp add: invoke_wf_def)

theorem invoke_roundtrip_witness:
  "\<exists>bs. encodeInvokePayload ''echo'' ''run'' [0, 255] = Ok bs \<and> decodeInvokePayload bs = Ok (''echo'', ''run'', [0, 255])"
  by (rule invoke_roundtrip) simp_all

section \<open>Registry and dispatch\<close>

text \<open>
  Agent registry.  Registration succeeds exactly for a non-empty, unused id and a
  non-nil agent; it then adds that agent and changes no other entry, and on failure the
  node is unchanged, so a registered agent is never replaced.
\<close>

theorem register_agent:
  "(fst (RegisterAgent n aid a) = None \<longleftrightarrow> aid \<noteq> '''' \<and> a \<noteq> None \<and> n_agents n aid = None) \<and>
   n_agents (snd (RegisterAgent n aid a)) =
     (if fst (RegisterAgent n aid a) = None then (n_agents n)(aid := a) else n_agents n) \<and>
   (n_agents n aid' = Some b \<longrightarrow> n_agents (snd (RegisterAgent n aid a)) aid' = Some b)"
  by (cases a) (auto simp: RegisterAgent_def)

theorem register_agent_witness:
  "n_agents (snd (RegisterAgent \<lparr>n_cfg = \<lparr>nc_Signer = None, nc_Verifier = None, nc_Capabilities = []\<rparr>, n_agents = [''a'' \<mapsto> (\<lambda>iv. (None, inv_Op iv))]\<rparr> ''a'' (Some (\<lambda>iv. (Some EOF, inv_Op iv))))) ''a'' =
     Some (\<lambda>iv. (None, inv_Op iv))"
proof -
  let ?n = "\<lparr>n_cfg = \<lparr>nc_Signer = None, nc_Verifier = None, nc_Capabilities = []\<rparr>, n_agents = [''a'' \<mapsto> (\<lambda>iv. (None, inv_Op iv))]\<rparr>"
  have "n_agents ?n ''a'' = Some (\<lambda>iv. (None, inv_Op iv))" by simp
  then show ?thesis
    using register_agent [of ?n "''a''" "Some (\<lambda>iv. (Some EOF, inv_Op iv))" "''a''" "\<lambda>iv. (None, inv_Op iv)"] by blast
qed

lemma Operation_Close_closed [simp]: "s_closed (op_stream (Operation_Close op))"
  by (simp add: Operation_Close_def Stream_Close_def)

lemma Recv_conn [simp]: "op_conn (snd (Operation_Recv op)) = op_conn op" "op_OpID (snd (Operation_Recv op)) = op_OpID op"
  by (auto simp: Operation_Recv_eq split: prod.splits outcome.splits)

lemma handleOperation_invoked:
  assumes "fst (Operation_Recv op) = Ok f" "f_Type f = FrameInvoke"
    and "decodeInvokePayload (f_Payload f) = Ok (agentID, opName, args)" "n_agents n agentID = Some agent"
  shows "handleOperation n op =
    (let inv = \<lparr>inv_AgentID = agentID, inv_Operation = opName, inv_Args = args, inv_Op = snd (Operation_Recv op),
                inv_PeerNodeID = Operation_PeerNodeID op\<rparr>
     in (Some inv, Operation_Close (snd (agent inv))))"
proof -
  obtain op' where o: "Operation_Recv op = (Ok f, op')" using assms(1) by (cases "Operation_Recv op") auto
  then have "op_conn op' = op_conn op" using Recv_conn(1) [of op] by simp
  then have "Operation_PeerNodeID op' = Operation_PeerNodeID op" by (simp add: Operation_PeerNodeID_def)
  then show ?thesis using o assms by (simp add: handleOperation_def Let_def)
qed

text \<open>The node has this agent for the frame that waits on the operation, and this is the invocation it makes.\<close>

definition invoked :: "Node \<Rightarrow> Operation \<Rightarrow> agent \<Rightarrow> Invoke \<Rightarrow> bool" where
  "invoked n op agent iv \<longleftrightarrow>
     (\<exists>f k. Decode (pending (s_in (op_stream op))) = Ok (f, k) \<and> f_OpID f = op_OpID op \<and> f_Type f = FrameInvoke \<and>
        decodeInvokePayload (f_Payload f) = Ok (inv_AgentID iv, inv_Operation iv, inv_Args iv) \<and>
        n_agents n (inv_AgentID iv) = Some agent \<and> inv_Op iv = snd (Operation_Recv op) \<and>
        inv_PeerNodeID iv = Operation_PeerNodeID op)"

text \<open>
  C7 (dispatch).  When the bytes waiting on an inbound operation start with an INVOKE frame
  that carries the operation's number, whose payload decodes and names a registered agent,
  then what is left of the operation is what that agent made of it, closed: the agent was
  run on the decoded name and arguments, on the operation with the frame taken off, and
  with the NodeID of the connection's handshake, not one taken from the payload; the error
  it returned is dropped.  In every other case no agent runs and the operation is closed
  as the receive left it.
\<close>

theorem dispatch_correct:
  "(invoked n op agent iv \<longrightarrow> handleOperation n op = (Some iv, Operation_Close (snd (agent iv)))) \<and>
   ((\<nexists>agent iv. invoked n op agent iv) \<longrightarrow> handleOperation n op = (None, Operation_Close (snd (Operation_Recv op)))) \<and>
   s_closed (op_stream (snd (handleOperation n op)))"
proof (intro conjI impI)
  show "s_closed (op_stream (snd (handleOperation n op)))"
    by (simp add: handleOperation_def Let_def split: prod.splits outcome.splits option.splits)
  assume "invoked n op agent iv"
  then show "handleOperation n op = (Some iv, Operation_Close (snd (agent iv)))"
    using handleOperation_invoked [of op] Recv_delivered(1) [of op] by (cases iv) (auto simp: invoked_def Let_def)
next
  assume none: "\<nexists>agent iv. invoked n op agent iv"
  obtain x op' where o: "Operation_Recv op = (x, op')" by (cases "Operation_Recv op")
  have "n_agents n agentID = None"
    if "x = Ok f" "f_Type f = FrameInvoke" "decodeInvokePayload (f_Payload f) = Ok (agentID, opName, args)" for f agentID opName args
  proof (rule ccontr)
    assume "n_agents n agentID \<noteq> None"
    then obtain agent where "n_agents n agentID = Some agent" by blast
    then have "invoked n op agent \<lparr>inv_AgentID = agentID, inv_Operation = opName, inv_Args = args, inv_Op = op',
        inv_PeerNodeID = Operation_PeerNodeID op\<rparr>"
      using that Recv_Ok_iff [of op f] o by (auto simp: invoked_def)
    then show False using none by blast
  qed
  then show "handleOperation n op = (None, Operation_Close (snd (Operation_Recv op)))"
    using o by (cases x) (auto simp: handleOperation_def split: outcome.splits)
qed

text \<open>
  Remote invocation.  When a client invokes an agent on a connection and the bytes it
  wrote arrive, in any chunks, on the server's operation for that stream, the server's node
  runs the agent registered under that id with exactly the operation name and arguments of
  the call, and reports as the caller the NodeID of its own handshake.
\<close>

theorem invoke_end_to_end:
  assumes "Conn_Invoke c agentID opName args = (Ok op, c')" "s_sent (op_stream op) = sent @ [bs]"
    and "op_OpID op \<le> MaxVarint" "length agentID + length opName + length args + 16 \<le> unat MaxFrameSize"
    and "op_OpID server = op_OpID op" "concat (rd_chunks (s_in (op_stream server))) = bs @ rest"
    and "n_agents n agentID = Some agent" "op_conn server = Some sc" "c_state sc = Some st"
  shows "\<exists>inv. fst (handleOperation n server) = Some inv \<and> inv_AgentID inv = agentID \<and> inv_Operation inv = opName \<and>
    inv_Args inv = args \<and> inv_PeerNodeID inv = hs_PeerNodeID st \<and>
    snd (handleOperation n server) = Operation_Close (snd (agent inv))"
proof -
  let ?payload = "wire_string agentID @ wire_string opName @ args"
  let ?f = "\<lparr>f_Type = FrameInvoke, f_Flags = 0, f_OpID = 0, f_Payload = ?payload\<rparr>"
  have len: "length agentID < 2 ^ 62" "length opName < 2 ^ 62" using assms(4) by auto
  obtain op0 where send: "Operation_Send op0 ?f = (Ok (), op)"
    using assms(1) encodeInvokePayload_Ok [OF len, of args]
    by (auto simp: Conn_Invoke_def split: prod.splits outcome.splits)
  have eq: "op_OpID op0 = op_OpID op" "s_sent (op_stream op) = s_sent (op_stream op0) @ [bs]"
    using Send_sent [OF send] assms(2) by auto
  have "length ?payload \<le> unat MaxFrameSize"
    using assms(4) length_varint_le [of "word_of_nat (length agentID)"] length_varint_le [of "word_of_nat (length opName)"]
    by (simp add: wire_string_def)
  then have r: "fst (Operation_Recv server) = Ok (?f\<lparr>f_OpID := op_OpID op\<rparr>)"
    using operation_received [OF send, of server bs rest] assms(3,5,6) eq by simp
  have "decodeInvokePayload (f_Payload (?f\<lparr>f_OpID := op_OpID op\<rparr>)) = Ok (agentID, opName, args)"
    using decodeInvokePayload_wire [OF len] by simp
  note h = handleOperation_invoked [OF r _ this assms(7)]
  have "Operation_PeerNodeID server = hs_PeerNodeID st" using assms(8,9) by (simp add: Operation_PeerNodeID_def)
  then show ?thesis using h by (simp add: Let_def)
qed

theorem dispatch_correct_witness:
  "handleOperation \<lparr>n_cfg = \<lparr>nc_Signer = None, nc_Verifier = None, nc_Capabilities = []\<rparr>,
       n_agents = [''a'' \<mapsto> (\<lambda>iv. (Some EOF, (inv_Op iv)\<lparr>op_OpID := 9\<rparr>))]\<rparr>
     \<lparr>op_OpID = 4, op_stream = sample_stream [3, 0, 4, 3, 1, 0x61, 0], op_conn = None\<rparr> =
   (Some \<lparr>inv_AgentID = ''a'', inv_Operation = '''', inv_Args = [],
       inv_Op = snd (Operation_Recv \<lparr>op_OpID = 4, op_stream = sample_stream [3, 0, 4, 3, 1, 0x61, 0], op_conn = None\<rparr>),
       inv_PeerNodeID = ''''\<rparr>,
    Operation_Close (snd (Operation_Recv \<lparr>op_OpID = 4, op_stream = sample_stream [3, 0, 4, 3, 1, 0x61, 0], op_conn = None\<rparr>)\<lparr>op_OpID := 9\<rparr>))"
proof -
  let ?n = "\<lparr>n_cfg = \<lparr>nc_Signer = None, nc_Verifier = None, nc_Capabilities = []\<rparr>,
       n_agents = [''a'' \<mapsto> (\<lambda>iv. (Some EOF, (inv_Op iv)\<lparr>op_OpID := 9\<rparr>))]\<rparr>"
  let ?op = "\<lparr>op_OpID = 4, op_stream = sample_stream [3, 0, 4, 3, 1, 0x61, 0], op_conn = None\<rparr>"
  let ?iv = "\<lparr>inv_AgentID = ''a'', inv_Operation = '''', inv_Args = [], inv_Op = snd (Operation_Recv ?op), inv_PeerNodeID = ''''\<rparr>"
  let ?f = "\<lparr>f_Type = 3, f_Flags = 0, f_OpID = 4, f_Payload = [1, 0x61, 0]\<rparr>"
  have "Decode (pending (s_in (op_stream ?op))) = Ok (?f, 7)"
    by (simp add: pending_def sample_stream_def Decode_def from_pos_def ReadVarint_def subslice_def index_def MaxFrameSize_def)
  moreover have "decodeInvokePayload (f_Payload ?f) = Ok (''a'', '''', [])"
    by (simp add: decodeInvokePayload_def readString_def from_pos_def ReadVarint_def subslice_def index_def slice_from_def
        string_of_bytes_eq_iff bytes_of_string_def byte_of_char_def)
  ultimately have "invoked ?n ?op (\<lambda>iv. (Some EOF, (inv_Op iv)\<lparr>op_OpID := 9\<rparr>)) ?iv"
    by (simp add: invoked_def Operation_PeerNodeID_def)
  then show ?thesis using dispatch_correct [of ?n ?op "\<lambda>iv. (Some EOF, (inv_Op iv)\<lparr>op_OpID := 9\<rparr>)" ?iv] by simp
qed

definition sample_conn :: Conn where
  "sample_conn =
     \<lparr>c_qc = \<lparr>q_open = (\<lambda>_. Ok (sample_stream [])), q_accept = (\<lambda>_. Err EOF), q_opened = 1, q_accepted = 0, q_closed = False\<rparr>,
      c_isClient = True, c_ctrl = None,
      c_state = Some \<lparr>hs_PeerNodeID = ''did:web:a'', hs_NegotiatedMinor = 2, hs_ActiveCapabilities = []\<rparr>\<rparr>"

theorem invoke_end_to_end_witness:
  "\<exists>n server iv. fst (handleOperation n server) = Some iv \<and> inv_AgentID iv = ''echo'' \<and> inv_Operation iv = ''run'' \<and>
     inv_Args iv = [7] \<and> inv_PeerNodeID iv = ''did:web:a''"
proof -
  let ?payload = "[4, 0x65, 0x63, 0x68, 0x6f, 3, 0x72, 0x75, 0x6e, 7] :: bytes"
  let ?bs = "[0x03, 0, 0, 10] @ ?payload"
  have p: "encodeInvokePayload ''echo'' ''run'' [7] = Ok ?payload"
    by (simp add: encodeInvokePayload_def appendString_def AppendVarint_def MaxVarint_def bytes_of_string_def byte_of_char_def)
  have e: "Frame_Encode \<lparr>f_Type = FrameInvoke, f_Flags = 0, f_OpID = 0, f_Payload = ?payload\<rparr> = Ok ?bs"
    by (simp add: Frame_Encode_def Frame_AppendEncode_def AppendVarint_def MaxVarint_def)
  let ?c = "sample_conn\<lparr>c_qc := (c_qc sample_conn)\<lparr>q_opened := 2\<rparr>\<rparr>"
  let ?op = "\<lparr>op_OpID = 0, op_stream = (sample_stream [])\<lparr>s_sent := [?bs]\<rparr>, op_conn = Some ?c\<rparr>"
  have i: "Conn_Invoke sample_conn ''echo'' ''run'' [7] = (Ok ?op, ?c)"
    using p e
    by (simp add: Conn_Invoke_def NewOperation_def Conn_OpenStream_def OpenStreamSync_def sample_conn_def
        Operation_Send_def Stream_SendFrame_def sample_stream_def numeral_2_eq_2)
  let ?server = "\<lparr>op_OpID = 0, op_stream = sample_stream ?bs, op_conn = Some sample_conn\<rparr>"
  let ?n = "\<lparr>n_cfg = \<lparr>nc_Signer = None, nc_Verifier = None, nc_Capabilities = []\<rparr>, n_agents = [''echo'' \<mapsto> (\<lambda>iv. (None, inv_Op iv))]\<rparr>"
  let ?st = "\<lparr>hs_PeerNodeID = ''did:web:a'', hs_NegotiatedMinor = 2, hs_ActiveCapabilities = []\<rparr>"
  have "\<exists>iv. fst (handleOperation ?n ?server) = Some iv \<and> inv_AgentID iv = ''echo'' \<and> inv_Operation iv = ''run'' \<and>
      inv_Args iv = [7] \<and> inv_PeerNodeID iv = hs_PeerNodeID ?st \<and>
      snd (handleOperation ?n ?server) = Operation_Close (snd ((\<lambda>iv. (None :: error option, inv_Op iv)) iv))"
    by (rule invoke_end_to_end [OF i, where sent = "[]" and bs = ?bs and rest = "[]" and sc = sample_conn])
       (simp_all add: sample_stream_def sample_conn_def MaxVarint_def)
  then show ?thesis by auto
qed

end
