(* ===== verification/Lifecycle.thy ===== *)
theory Lifecycle imports Node begin

text \<open>
  The goroutines of a \<^verbatim>\<open>Node\<close>: \<^verbatim>\<open>Listen\<close>, \<^verbatim>\<open>Stop\<close>, the accept loop, one handler per connection
  and one per operation, as a step relation on the state they share.

  Each step is a piece of one goroutine that the others see as a whole: a critical section,
  an assignment, a blocking call that returns.  At most one call of \<^verbatim>\<open>Listen\<close> and one of \<^verbatim>\<open>Stop\<close>
  get past their first test, so the state has one program counter for each; the calls that
  return at that test change nothing.  The socket is the QUIC listener, which exists from
  the moment it is bound; \<open>field_set\<close> says that \<^verbatim>\<open>n.listener\<close> refers to it.  \<open>wg\<close> is the wait
  group's counter, an integer because Go panics when it becomes negative.  \<open>overlap\<close> is a
  ghost: \<^verbatim>\<open>Stop\<close> began while \<^verbatim>\<open>Listen\<close> was under way.

  A blocking call returns when what it waits for is there, and not before.  \<^verbatim>\<open>Accept\<close> and
  \<^verbatim>\<open>AcceptStream\<close> take the node's context and return when it is cancelled.  \<^verbatim>\<open>SendFrame\<close> and
  \<^verbatim>\<open>RecvFrame\<close> take none: during the HELLO exchange a handler waits until the peer has let it
  through (\<open>h_hello\<close>: its HELLO was taken and an answer, good or bad, is here) or the
  connection is lost, and an operation waits for its first frame until that frame is here
  or the connection is lost or closed.  What the peer and the network do are the steps of
  the transport.  An agent may return at any time.
\<close>

section \<open>State\<close>

datatype socket = Unbound | Listening | Closed

datatype listen_pc = L_idle | L_bind | L_set | L_add | L_spawn | L_done

datatype stop_pc = S_idle | S_cancel | S_close | S_wait | S_done

datatype loop_pc = A_none | A_accept | A_got | A_ended

text \<open>
  A handler accepts the control stream, draws key and nonce and signs its HELLO, exchanges
  the HELLO frames, and then accepts operations.
\<close>

datatype conn_phase = C_control | C_prepare | C_hello | C_serving | C_ended

text \<open>The operations of a connection by their place: in \<^verbatim>\<open>op.Recv\<close>, with a frame to look at, in the agent.\<close>

record handler =
  h_phase :: conn_phase
  h_hello :: bool
  h_lost :: bool
  h_closed :: bool
  h_recv :: nat
  h_ready :: nat
  h_run :: nat

definition h_ops :: "handler \<Rightarrow> nat" where
  "h_ops h = h_recv h + h_ready h + h_run h"

definition new_handler :: handler where
  "new_handler = \<lparr>h_phase = C_control, h_hello = False, h_lost = False, h_closed = False,
     h_recv = 0, h_ready = 0, h_run = 0\<rparr>"

record lstate =
  started :: bool
  stopped :: bool
  cancelled :: bool
  field_set :: bool
  sock :: socket
  broken :: bool
  wg :: int
  lpc :: listen_pc
  spc :: stop_pc
  apc :: loop_pc
  handlers :: "handler list"
  overlap :: bool

definition init :: lstate where
  "init = \<lparr>started = False, stopped = False, cancelled = False, field_set = False, sock = Unbound, broken = False, wg = 0,
     lpc = L_idle, spc = S_idle, apc = A_none, handlers = [], overlap = False\<rparr>"

section \<open>Steps\<close>

inductive listen_step :: "lstate \<Rightarrow> lstate \<Rightarrow> bool" where
  check: "\<not> started s \<Longrightarrow> \<not> stopped s \<Longrightarrow> listen_step s (s\<lparr>started := True, lpc := L_bind\<rparr>)"
| bind_fails: "lpc s = L_bind \<Longrightarrow> listen_step s (s\<lparr>lpc := L_done\<rparr>)"
| bind: "lpc s = L_bind \<Longrightarrow> listen_step s (s\<lparr>sock := Listening, lpc := L_set\<rparr>)"
| set_listener: "lpc s = L_set \<Longrightarrow> listen_step s (s\<lparr>field_set := True, lpc := L_add\<rparr>)"
| wg_add: "lpc s = L_add \<Longrightarrow> listen_step s (s\<lparr>wg := wg s + 1, lpc := L_spawn\<rparr>)"
| spawn: "lpc s = L_spawn \<Longrightarrow> listen_step s (s\<lparr>apc := A_accept, lpc := L_done\<rparr>)"

definition listen_under_way :: "lstate \<Rightarrow> bool" where
  "listen_under_way s \<longleftrightarrow> lpc s \<noteq> L_idle \<and> lpc s \<noteq> L_done"

inductive stop_step :: "lstate \<Rightarrow> lstate \<Rightarrow> bool" where
  check: "\<not> stopped s \<Longrightarrow> stop_step s (s\<lparr>stopped := True, spc := S_cancel, overlap := listen_under_way s\<rparr>)"
| cancel: "spc s = S_cancel \<Longrightarrow> stop_step s (s\<lparr>cancelled := True, spc := S_close\<rparr>)"
| close_listener: "spc s = S_close \<Longrightarrow> field_set s \<Longrightarrow> stop_step s (s\<lparr>sock := Closed, spc := S_wait\<rparr>)"
| no_listener: "spc s = S_close \<Longrightarrow> \<not> field_set s \<Longrightarrow> stop_step s (s\<lparr>spc := S_wait\<rparr>)"
| wait: "spc s = S_wait \<Longrightarrow> wg s = 0 \<Longrightarrow> stop_step s (s\<lparr>spc := S_done\<rparr>)"

text \<open>A connection that was queued may be handed out even after the context or the listener is gone.\<close>

inductive accept_step :: "lstate \<Rightarrow> lstate \<Rightarrow> bool" where
  accept: "apc s = A_accept \<Longrightarrow> accept_step s (s\<lparr>apc := A_got\<rparr>)"
| accept_fails: "apc s = A_accept \<Longrightarrow> cancelled s \<or> sock s = Closed \<or> broken s \<Longrightarrow>
    accept_step s (s\<lparr>apc := A_ended, wg := wg s - 1\<rparr>)"
| spawn_handler: "apc s = A_got \<Longrightarrow>
    accept_step s (s\<lparr>apc := A_accept, wg := wg s + 1, handlers := handlers s @ [new_handler]\<rparr>)"

text \<open>
  Moves of one connection's goroutines: the context is cancelled or not, the handler before,
  the change of the wait group, the handler after.  The first two are calls that return
  because the peer opened a stream.
\<close>

inductive stream_accepted :: "handler \<Rightarrow> int \<Rightarrow> handler \<Rightarrow> bool" where
  control_stream: "h_phase h = C_control \<Longrightarrow> stream_accepted h 0 (h\<lparr>h_phase := C_prepare\<rparr>)"
| operation_stream: "h_phase h = C_serving \<Longrightarrow> stream_accepted h 1 (h\<lparr>h_recv := Suc (h_recv h)\<rparr>)"

inductive handler_move :: "bool \<Rightarrow> handler \<Rightarrow> int \<Rightarrow> handler \<Rightarrow> bool" where
  stream: "stream_accepted h d h' \<Longrightarrow> handler_move c h d h'"
| control_fails: "h_phase h = C_control \<Longrightarrow> c \<or> h_lost h \<Longrightarrow>
    handler_move c h (- 1) (h\<lparr>h_phase := C_ended, h_closed := True\<rparr>)"
| prepared: "h_phase h = C_prepare \<Longrightarrow> handler_move c h 0 (h\<lparr>h_phase := C_hello\<rparr>)"
| prepare_fails: "h_phase h = C_prepare \<Longrightarrow> handler_move c h (- 1) (h\<lparr>h_phase := C_ended, h_closed := True\<rparr>)"
| handshake_done: "h_phase h = C_hello \<Longrightarrow> h_hello h \<Longrightarrow> handler_move c h 0 (h\<lparr>h_phase := C_serving\<rparr>)"
| handshake_fails: "h_phase h = C_hello \<Longrightarrow> h_hello h \<or> h_lost h \<Longrightarrow>
    handler_move c h (- 1) (h\<lparr>h_phase := C_ended, h_closed := True\<rparr>)"
| accept_operation_fails: "h_phase h = C_serving \<Longrightarrow> c \<or> h_lost h \<Longrightarrow>
    handler_move c h (- 1) (h\<lparr>h_phase := C_ended, h_closed := True\<rparr>)"
| recv_fails: "0 < h_recv h \<Longrightarrow> h_lost h \<or> h_closed h \<Longrightarrow> handler_move c h (- 1) (h\<lparr>h_recv := h_recv h - 1\<rparr>)"
| refused: "0 < h_ready h \<Longrightarrow> handler_move c h (- 1) (h\<lparr>h_ready := h_ready h - 1\<rparr>)"
| dispatched: "0 < h_ready h \<Longrightarrow> handler_move c h 0 (h\<lparr>h_ready := h_ready h - 1, h_run := Suc (h_run h)\<rparr>)"
| agent_returns: "0 < h_run h \<Longrightarrow> handler_move c h (- 1) (h\<lparr>h_run := h_run h - 1\<rparr>)"

inductive handler_step :: "lstate \<Rightarrow> lstate \<Rightarrow> bool" where
  move: "i < length (handlers s) \<Longrightarrow> handler_move (cancelled s) (handlers s ! i) d h \<Longrightarrow>
    handler_step s (s\<lparr>handlers := (handlers s)[i := h], wg := wg s + d\<rparr>)"

text \<open>
  What the peer and the network do: end a connection, let the HELLO exchange through, bring
  the first frame of an operation, break the listener's socket.
\<close>

inductive conn_event :: "handler \<Rightarrow> handler \<Rightarrow> bool" where
  connection_lost: "conn_event h (h\<lparr>h_lost := True\<rparr>)"
| hello_arrives: "conn_event h (h\<lparr>h_hello := True\<rparr>)"
| frame_arrives: "0 < h_recv h \<Longrightarrow> conn_event h (h\<lparr>h_recv := h_recv h - 1, h_ready := Suc (h_ready h)\<rparr>)"

inductive transport_step :: "lstate \<Rightarrow> lstate \<Rightarrow> bool" where
  on_connection: "i < length (handlers s) \<Longrightarrow> conn_event (handlers s ! i) h \<Longrightarrow>
    transport_step s (s\<lparr>handlers := (handlers s)[i := h]\<rparr>)"
| on_listener: "apc s = A_accept \<Longrightarrow> transport_step s (s\<lparr>broken := True\<rparr>)"

inductive step :: "lstate \<Rightarrow> lstate \<Rightarrow> bool" where
  "listen_step s s' \<Longrightarrow> step s s'"
| "stop_step s s' \<Longrightarrow> step s s'"
| "accept_step s s' \<Longrightarrow> step s s'"
| "handler_step s s' \<Longrightarrow> step s s'"
| "transport_step s s' \<Longrightarrow> step s s'"

inductive reachable :: "lstate \<Rightarrow> bool" where
  start: "reachable init"
| more: "reachable s \<Longrightarrow> step s s' \<Longrightarrow> reachable s'"

lemmas step_cases = step.cases listen_step.cases stop_step.cases accept_step.cases handler_step.cases transport_step.cases

lemmas move_cases = handler_move.cases stream_accepted.cases

section \<open>The wait group counts the goroutines\<close>

definition handler_weight :: "handler \<Rightarrow> nat" where
  "handler_weight h = (if h_phase h = C_ended then 0 else 1) + h_ops h"

definition loop_weight :: "lstate \<Rightarrow> nat" where
  "loop_weight s = (if lpc s = L_spawn then 1 else 0) + (if apc s = A_accept \<or> apc s = A_got then 1 else 0)"

definition live :: "lstate \<Rightarrow> nat" where
  "live s = loop_weight s + sum_list (map handler_weight (handlers s))"

lemmas weight_update = sum_list_map_update [where f = handler_weight]

lemma move_weight: "handler_move c h d h' \<Longrightarrow> int (handler_weight h') = int (handler_weight h) + d"
  by (auto simp: handler_weight_def h_ops_def elim!: move_cases)

lemma event_weight: "conn_event h h' \<Longrightarrow> handler_weight h' = handler_weight h"
  by (auto simp: handler_weight_def h_ops_def elim!: conn_event.cases)

lemma new_handler_weight [simp]: "handler_weight new_handler = 1"
  by (simp add: handler_weight_def new_handler_def h_ops_def)

lemma handler_step_live: "handler_step s s' \<Longrightarrow> int (live s') - wg s' = int (live s) - wg s"
proof (induction rule: handler_step.induct)
  case (move i s d h)
  then show ?case using weight_update [OF move(1), of h] move_weight [OF move(2)] by (simp add: live_def loop_weight_def)
qed

lemma transport_step_live: "transport_step s s' \<Longrightarrow> live s' = live s \<and> wg s' = wg s"
proof (induction rule: transport_step.induct)
  case (on_connection i s h)
  then show ?case using weight_update [OF on_connection(1), of h] event_weight [OF on_connection(2)]
    by (simp add: live_def loop_weight_def)
qed (simp add: live_def loop_weight_def)

text \<open>The loop starts only through the one successful call of \<^verbatim>\<open>Listen\<close>.\<close>

definition loop_inv :: "lstate \<Rightarrow> bool" where
  "loop_inv s \<longleftrightarrow> (apc s \<noteq> A_none \<longrightarrow> lpc s = L_done) \<and> (lpc s \<noteq> L_idle \<longrightarrow> started s)"

lemma loop_inv_step: "step s s' \<Longrightarrow> loop_inv s \<Longrightarrow> loop_inv s'"
  by (auto simp: loop_inv_def elim!: step_cases)

lemma wg_step:
  assumes "step s s'" "loop_inv s" "wg s = int (live s)"
  shows "wg s' = int (live s')"
  using assms(1)
proof cases
  case 1
  then show ?thesis using assms(2,3) by (auto simp: live_def loop_weight_def loop_inv_def elim!: listen_step.cases)
next
  case 2
  then show ?thesis using assms(2,3) by (auto simp: live_def loop_weight_def elim!: stop_step.cases)
next
  case 3
  then show ?thesis using assms(2,3) by (auto simp: live_def loop_weight_def elim!: accept_step.cases)
next
  case 4
  then show ?thesis using handler_step_live [OF 4] assms(3) by linarith
next
  case 5
  then show ?thesis using transport_step_live [OF 5] assms(3) by simp
qed

lemma reachable_wg: "reachable s \<Longrightarrow> loop_inv s \<and> wg s = int (live s)"
proof (induction rule: reachable.induct)
  case start
  then show ?case by (simp add: init_def loop_inv_def live_def loop_weight_def)
next
  case (more s s')
  then show ?case using loop_inv_step wg_step by blast
qed

text \<open>
  C10 (wait group).  In every reachable state the wait group's counter is the number of
  goroutines that are running or about to be started, so it is never negative and a
  \<^verbatim>\<open>Done\<close> never panics.
\<close>

theorem wait_group_exact:
  assumes "reachable s"
  shows "wg s = int (live s) \<and> 0 \<le> wg s"
  using reachable_wg [OF assms] by simp

section \<open>What Stop leaves behind\<close>

definition stop_inv :: "lstate \<Rightarrow> bool" where
  "stop_inv s \<longleftrightarrow>
     (spc s \<noteq> S_idle \<longrightarrow> stopped s) \<and>
     (sock s = Listening \<longrightarrow> field_set s \<or> lpc s = L_set) \<and>
     (stopped s \<and> \<not> overlap s \<longrightarrow> \<not> listen_under_way s) \<and>
     (\<not> overlap s \<and> (spc s = S_wait \<or> spc s = S_done) \<longrightarrow> sock s \<noteq> Listening) \<and>
     (\<not> overlap s \<and> spc s = S_done \<longrightarrow> live s = 0)"

lemma live_0_iff:
  "live s = 0 \<longleftrightarrow> lpc s \<noteq> L_spawn \<and> apc s \<noteq> A_accept \<and> apc s \<noteq> A_got \<and>
     (\<forall>h \<in> set (handlers s). h_phase h = C_ended \<and> h_ops h = 0)"
  by (auto simp: live_def loop_weight_def handler_weight_def)

lemma move_live: "handler_move c h d h' \<Longrightarrow> h_phase h \<noteq> C_ended \<or> 0 < h_ops h"
  by (auto simp: h_ops_def elim!: move_cases)

lemma live_0_handler: "live s = 0 \<Longrightarrow> \<not> handler_step s s'"
proof
  assume l: "live s = 0" and "handler_step s s'"
  from this(2) show False
  proof cases
    case (move i d h)
    then have "handlers s ! i \<in> set (handlers s)" by simp
    then show ?thesis using l move_live [OF move(3)] unfolding live_0_iff by auto
  qed
qed

lemma live_0_accept: "live s = 0 \<Longrightarrow> \<not> accept_step s s'"
  unfolding live_0_iff by (auto elim: accept_step.cases)

lemma listen_frame:
  assumes "listen_step s s'" "loop_inv s"
  shows "overlap s' = overlap s \<and> stopped s' = stopped s \<and> spc s' = spc s \<and> (stopped s \<longrightarrow> listen_under_way s) \<and>
    (sock s' = Listening \<longrightarrow> field_set s' \<or> lpc s' = L_set \<or>
       sock s = Listening \<and> (field_set s \<longrightarrow> field_set s') \<and> lpc s \<noteq> L_set)"
  using assms(1) by cases (use assms(2) in \<open>auto simp: listen_under_way_def loop_inv_def\<close>)

lemma stop_inv_listen:
  assumes "listen_step s s'" "loop_inv s" "stop_inv s" shows "stop_inv s'"
proof -
  note f = listen_frame [OF assms(1,2)]
  have "overlap s \<or> spc s = S_idle \<and> \<not> stopped s" using f assms(3) unfolding stop_inv_def by blast
  then show ?thesis using f assms(3) unfolding stop_inv_def by auto
qed

lemma stop_inv_stop:
  assumes "stop_step s s'" "wg s = int (live s)" "stop_inv s" shows "stop_inv s'"
  using assms(1)
proof cases
  case check
  then show ?thesis using assms(3) by (simp add: stop_inv_def listen_under_way_def)
next
  case cancel
  then show ?thesis using assms(3) by (simp add: stop_inv_def listen_under_way_def)
next
  case close_listener
  then show ?thesis using assms(3) by (simp add: stop_inv_def listen_under_way_def)
next
  case no_listener
  then show ?thesis using assms(3) by (auto simp: stop_inv_def listen_under_way_def)
next
  case wait
  then have "live s' = live s" by (simp add: live_def loop_weight_def)
  then show ?thesis using wait assms(2,3) by (simp add: stop_inv_def listen_under_way_def)
qed

lemma worker_frame:
  assumes "accept_step s s' \<or> handler_step s s'"
  shows "overlap s' = overlap s \<and> stopped s' = stopped s \<and> spc s' = spc s \<and> sock s' = sock s \<and>
    field_set s' = field_set s \<and> lpc s' = lpc s"
  using assms by (auto elim: accept_step.cases handler_step.cases)

lemma transport_frame:
  assumes "transport_step s s'"
  shows "overlap s' = overlap s \<and> stopped s' = stopped s \<and> spc s' = spc s \<and> sock s' = sock s \<and>
    field_set s' = field_set s \<and> lpc s' = lpc s \<and> live s' = live s"
  using assms transport_step_live [OF assms] by (auto elim: transport_step.cases)

lemma stop_inv_transport: "transport_step s s' \<Longrightarrow> stop_inv s \<Longrightarrow> stop_inv s'"
  using transport_frame [of s s'] unfolding stop_inv_def listen_under_way_def by auto

lemma stop_inv_worker:
  assumes "accept_step s s' \<or> handler_step s s'" "stop_inv s" shows "stop_inv s'"
proof -
  have "live s \<noteq> 0" using assms(1) live_0_accept live_0_handler by blast
  then have "overlap s \<or> spc s \<noteq> S_done" using assms(2) by (auto simp: stop_inv_def)
  then show ?thesis using worker_frame [OF assms(1)] assms(2) unfolding stop_inv_def listen_under_way_def by auto
qed

lemma reachable_stop_inv: "reachable s \<Longrightarrow> stop_inv s"
proof (induction rule: reachable.induct)
  case start
  then show ?case by (simp add: init_def stop_inv_def listen_under_way_def)
next
  case (more s s')
  then show ?case
    using reachable_wg stop_inv_listen stop_inv_stop stop_inv_worker stop_inv_transport by (metis step.cases)
qed

text \<open>
  C5 (Stop quiesces).  When \<^verbatim>\<open>Stop\<close> did not begin in the middle of a call of \<^verbatim>\<open>Listen\<close>, then once it
  has returned, in that state and for ever after, the listener is not open, the accept loop
  is not running, every connection handler has ended and no operation is in progress.
\<close>

theorem stop_quiesces:
  assumes "reachable s" "spc s = S_done" "\<not> overlap s"
  shows "sock s \<noteq> Listening \<and> apc s \<noteq> A_accept \<and> apc s \<noteq> A_got \<and> wg s = 0 \<and>
         (\<forall>h \<in> set (handlers s). h_phase h = C_ended \<and> h_ops h = 0)"
  using reachable_stop_inv [OF assms(1)] reachable_wg [OF assms(1)] assms(2,3)
  by (auto simp: stop_inv_def live_0_iff)

text \<open>Runs as sequences of steps, to exhibit states.\<close>

lemmas listen_moves = listen_step.intros [THEN step.intros(1), THEN [2] reachable.more]
lemmas stop_moves = stop_step.intros [THEN step.intros(2), THEN [2] reachable.more]
lemmas accept_moves = accept_step.intros [THEN step.intros(3), THEN [2] reachable.more]
lemmas transport_moves = transport_step.intros [THEN step.intros(5), THEN [2] reachable.more]

lemma handler_moves:
  "reachable s \<Longrightarrow> i < length (handlers s) \<Longrightarrow> handler_move (cancelled s) (handlers s ! i) d h \<Longrightarrow>
   s' = s\<lparr>handlers := (handlers s)[i := h], wg := wg s + d\<rparr> \<Longrightarrow> reachable s'"
  using reachable.more step.intros(4) handler_step.move by blast

definition leaked :: lstate where
  "leaked = \<lparr>started = True, stopped = True, cancelled = True, field_set = True, sock = Listening, broken = False, wg = 0,
     lpc = L_done, spc = S_done, apc = A_ended, handlers = [], overlap = True\<rparr>"

lemma reachable_leaked: "reachable leaked"
proof -
  note moves = init_def listen_under_way_def
  let ?a = "init\<lparr>started := True, lpc := L_bind\<rparr>"
  let ?b = "?a\<lparr>stopped := True, spc := S_cancel, overlap := listen_under_way ?a\<rparr>"
  let ?c = "?b\<lparr>cancelled := True, spc := S_close\<rparr>"
  let ?d = "?c\<lparr>spc := S_wait\<rparr>"
  let ?e = "?d\<lparr>spc := S_done\<rparr>"
  let ?f = "?e\<lparr>sock := Listening, lpc := L_set\<rparr>"
  let ?g = "?f\<lparr>field_set := True, lpc := L_add\<rparr>"
  let ?h = "?g\<lparr>wg := wg ?g + 1, lpc := L_spawn\<rparr>"
  let ?i = "?h\<lparr>apc := A_accept, lpc := L_done\<rparr>"
  have "reachable ?a" by (rule listen_moves(1) [OF reachable.start]) (simp_all add: moves)
  then have "reachable ?b" by (rule stop_moves(1)) (simp add: moves)
  then have "reachable ?c" by (rule stop_moves(2)) simp
  then have "reachable ?d" by (rule stop_moves(4)) (simp_all add: moves)
  then have "reachable ?e" by (rule stop_moves(5)) (simp_all add: moves)
  then have "reachable ?f" by (rule listen_moves(3)) simp
  then have "reachable ?g" by (rule listen_moves(4)) simp
  then have "reachable ?h" by (rule listen_moves(5)) simp
  then have "reachable ?i" by (rule listen_moves(6)) simp
  then have "reachable (?i\<lparr>apc := A_ended, wg := wg ?i - 1\<rparr>)" by (rule accept_moves(2)) simp_all
  then show ?thesis by (simp add: moves leaked_def)
qed

text \<open>
  C39 (listener leak).  When \<^verbatim>\<open>Stop\<close> runs between the first test of \<^verbatim>\<open>Listen\<close> and its assignment of
  the listener, it returns without closing the socket that \<^verbatim>\<open>Listen\<close> then opens: a state is
  reachable in which every call and goroutine has finished, nothing can happen any more,
  and the listener is still open.
\<close>

theorem stop_leaks_listener:
  "\<exists>s. reachable s \<and> spc s = S_done \<and> lpc s = L_done \<and> wg s = 0 \<and> sock s = Listening \<and> (\<nexists>s'. step s s')"
proof -
  have "live leaked = 0" by (simp add: leaked_def live_def loop_weight_def)
  moreover have "\<not> listen_step leaked s'" "\<not> stop_step leaked s'" for s'
    by (auto simp: leaked_def elim: listen_step.cases stop_step.cases)
  moreover have "\<not> transport_step leaked s'" for s' by (auto simp: leaked_def elim: transport_step.cases)
  ultimately have "\<nexists>s'. step leaked s'" using live_0_accept live_0_handler by (auto elim: step.cases)
  then show ?thesis using reachable_leaked by (intro exI [of _ leaked]) (simp add: leaked_def)
qed

text \<open>A node with one connection, at a given place.\<close>

definition one_conn :: "handler \<Rightarrow> int \<Rightarrow> lstate" where
  "one_conn h k = \<lparr>started = True, stopped = False, cancelled = False, field_set = True, sock = Listening, broken = False, wg = k,
     lpc = L_done, spc = S_idle, apc = A_accept, handlers = [h], overlap = False\<rparr>"

lemma one_conn_simps [simp]:
  "started (one_conn h k)" "\<not> stopped (one_conn h k)" "\<not> cancelled (one_conn h k)" "field_set (one_conn h k)"
  "sock (one_conn h k) = Listening" "wg (one_conn h k) = k" "lpc (one_conn h k) = L_done" "spc (one_conn h k) = S_idle"
  "apc (one_conn h k) = A_accept" "handlers (one_conn h k) = [h]" "\<not> overlap (one_conn h k)"
  by (simp_all add: one_conn_def)

lemma reachable_connected: "reachable (one_conn new_handler 2)"
proof -
  let ?a = "init\<lparr>started := True, lpc := L_bind\<rparr>"
  let ?b = "?a\<lparr>sock := Listening, lpc := L_set\<rparr>"
  let ?c = "?b\<lparr>field_set := True, lpc := L_add\<rparr>"
  let ?d = "?c\<lparr>wg := wg ?c + 1, lpc := L_spawn\<rparr>"
  let ?e = "?d\<lparr>apc := A_accept, lpc := L_done\<rparr>"
  let ?f = "?e\<lparr>apc := A_got\<rparr>"
  have "reachable ?a" by (rule listen_moves(1) [OF reachable.start]) (simp_all add: init_def)
  then have "reachable ?b" by (rule listen_moves(3)) simp
  then have "reachable ?c" by (rule listen_moves(4)) simp
  then have "reachable ?d" by (rule listen_moves(5)) simp
  then have "reachable ?e" by (rule listen_moves(6)) simp
  then have "reachable ?f" by (rule accept_moves(1)) simp
  then have "reachable (?f\<lparr>apc := A_accept, wg := wg ?f + 1, handlers := handlers ?f @ [new_handler]\<rparr>)"
    by (rule accept_moves(3)) simp
  then show ?thesis by (simp add: init_def one_conn_def)
qed

lemma one_conn_move: "reachable (one_conn h k) \<Longrightarrow> handler_move False h d h' \<Longrightarrow> reachable (one_conn h' (k + d))"
  by (rule handler_moves [of "one_conn h k" 0 d h']) (simp_all add: one_conn_def)

lemma one_conn_event: "reachable (one_conn h k) \<Longrightarrow> conn_event h h' \<Longrightarrow> reachable (one_conn h' k)"
  using transport_moves(1) [of "one_conn h k" 0 h'] by (simp add: one_conn_def)

lemma reachable_exchanging: "reachable (one_conn (new_handler\<lparr>h_phase := C_hello\<rparr>) 2)"
  using one_conn_move [OF one_conn_move [OF reachable_connected stream [OF control_stream]] prepared]
  by (simp add: new_handler_def)

definition served :: handler where
  "served = new_handler\<lparr>h_phase := C_serving, h_hello := True, h_run := 1\<rparr>"

definition serving :: lstate where
  "serving = one_conn served 3"

lemma reachable_serving: "reachable serving"
proof -
  let ?a = "new_handler\<lparr>h_phase := C_hello\<rparr>"
  let ?b = "?a\<lparr>h_hello := True\<rparr>"
  let ?c = "?b\<lparr>h_phase := C_serving\<rparr>"
  let ?d = "?c\<lparr>h_recv := Suc (h_recv ?c)\<rparr>"
  let ?e = "?d\<lparr>h_recv := h_recv ?d - 1, h_ready := Suc (h_ready ?d)\<rparr>"
  let ?f = "?e\<lparr>h_ready := h_ready ?e - 1, h_run := Suc (h_run ?e)\<rparr>"
  have "reachable (one_conn ?b 2)" by (rule one_conn_event [OF reachable_exchanging hello_arrives])
  then have "reachable (one_conn ?c (2 + 0))" by (rule one_conn_move) (rule handshake_done, simp_all)
  then have "reachable (one_conn ?d (2 + 0 + 1))" by (rule one_conn_move) (rule stream, rule operation_stream, simp)
  then have "reachable (one_conn ?e (2 + 0 + 1))" by (rule one_conn_event) (rule frame_arrives, simp)
  then have "reachable (one_conn ?f (2 + 0 + 1 + 0))" by (rule one_conn_move) (rule dispatched, simp)
  then show ?thesis by (simp add: serving_def served_def new_handler_def)
qed

text \<open>Why a handler has ended.\<close>

definition handler_inv :: "bool \<Rightarrow> handler \<Rightarrow> bool" where
  "handler_inv c h \<longleftrightarrow> (h_phase h \<noteq> C_serving \<and> h_phase h \<noteq> C_ended \<longrightarrow> h_ops h = 0) \<and> (h_closed h \<longleftrightarrow> h_phase h = C_ended) \<and>
     (h_phase h = C_ended \<and> 0 < h_ops h \<longrightarrow> c \<or> h_lost h)"

lemma list_all_update: "list_all P xs \<Longrightarrow> P x \<Longrightarrow> list_all P (xs[i := x])"
  by (auto simp: list_all_iff dest: set_update_subset_insert [THEN subsetD])

lemma handler_inv_nth: "list_all (handler_inv c) hs \<Longrightarrow> i < length hs \<Longrightarrow> handler_inv c (hs ! i)"
  by (simp add: list_all_length)

lemma handler_inv_mono: "list_all (handler_inv c) hs \<Longrightarrow> list_all (handler_inv True) hs"
  by (auto simp: list_all_iff handler_inv_def)

lemma handler_inv_new: "handler_inv c new_handler"
  by (simp add: handler_inv_def new_handler_def h_ops_def)

lemma handler_inv_move: "handler_move c h d h' \<Longrightarrow> handler_inv c h \<Longrightarrow> handler_inv c h'"
proof (induction rule: handler_move.induct)
  case (stream h d h' c)
  then show ?case by cases (simp_all add: handler_inv_def h_ops_def)
qed (simp_all add: handler_inv_def h_ops_def, (blast | linarith)+)

lemma handler_inv_event: "conn_event h h' \<Longrightarrow> handler_inv c h \<Longrightarrow> handler_inv c h'"
  by (auto simp: handler_inv_def h_ops_def elim!: conn_event.cases)

lemma handler_inv_step:
  assumes "step s s'" "list_all (handler_inv (cancelled s)) (handlers s)"
  shows "list_all (handler_inv (cancelled s')) (handlers s')"
  using assms(1)
proof cases
  case 4
  then show ?thesis
    by cases (use assms(2) handler_inv_nth [OF assms(2)] in \<open>auto intro: list_all_update handler_inv_move\<close>)
next
  case 5
  then show ?thesis
    by cases (use assms(2) handler_inv_nth [OF assms(2)] in \<open>auto intro: list_all_update handler_inv_event\<close>)
qed (use assms(2) handler_inv_mono handler_inv_new in \<open>auto elim!: listen_step.cases stop_step.cases accept_step.cases\<close>)

lemma reachable_handler_inv: "reachable s \<Longrightarrow> list_all (handler_inv (cancelled s)) (handlers s)"
  by (induction rule: reachable.induct) (auto simp: init_def intro: handler_inv_step)

text \<open>
  C40 (operations in flight).  A connection is closed under a running operation only when it
  was lost or the node was stopped; and \<^verbatim>\<open>Stop\<close> does that: from a node serving an operation
  on a healthy connection it cancels the context that the handler accepts with, the handler
  returns and closes the connection while the operation is still running on it.
\<close>

theorem stop_closes_connection_in_flight:
  "(reachable s \<and> h \<in> set (handlers s) \<and> h_closed h \<and> 0 < h_ops h \<longrightarrow> cancelled s \<or> h_lost h) \<and>
   (\<exists>s h. reachable s \<and> stopped s \<and> \<not> overlap s \<and> h \<in> set (handlers s) \<and> \<not> h_lost h \<and> h_closed h \<and> 0 < h_ops h)"
proof
  show "reachable s \<and> h \<in> set (handlers s) \<and> h_closed h \<and> 0 < h_ops h \<longrightarrow> cancelled s \<or> h_lost h"
    using reachable_handler_inv [of s] by (auto simp: list_all_iff handler_inv_def)
  let ?a = "serving\<lparr>stopped := True, spc := S_cancel, overlap := listen_under_way serving\<rparr>"
  let ?b = "?a\<lparr>cancelled := True, spc := S_close\<rparr>"
  let ?h = "served\<lparr>h_phase := C_ended, h_closed := True\<rparr>"
  let ?c = "?b\<lparr>handlers := (handlers ?b)[0 := ?h], wg := wg ?b - 1\<rparr>"
  have "reachable ?a" by (rule stop_moves(1) [OF reachable_serving]) (simp add: serving_def)
  then have b: "reachable ?b" by (rule stop_moves(2)) simp
  have "handler_move True served (- 1) ?h" by (rule accept_operation_fails) (simp_all add: served_def)
  then have "reachable ?c" using b by (intro handler_moves [of ?b 0 "- 1" ?h ?c]) (simp_all add: serving_def)
  then show "\<exists>s h. reachable s \<and> stopped s \<and> \<not> overlap s \<and> h \<in> set (handlers s) \<and> \<not> h_lost h \<and> h_closed h \<and> 0 < h_ops h"
    by (intro exI [of _ ?c] exI [of _ ?h])
       (simp add: serving_def served_def new_handler_def listen_under_way_def h_ops_def)
qed

definition lost :: lstate where
  "lost = one_conn (served\<lparr>h_lost := True, h_phase := C_ended, h_closed := True\<rparr>) 2"

lemma reachable_lost: "reachable lost"
proof -
  have "reachable (one_conn (served\<lparr>h_lost := True\<rparr>) 3)"
    by (rule one_conn_event [OF reachable_serving [unfolded serving_def] connection_lost])
  then have "reachable (one_conn (served\<lparr>h_lost := True, h_phase := C_ended, h_closed := True\<rparr>) (3 + - 1))"
    by (rule one_conn_move) (rule accept_operation_fails, simp_all add: served_def)
  then show ?thesis by (simp add: lost_def)
qed

theorem stop_closes_connection_in_flight_witness:
  "reachable lost \<and> \<not> cancelled lost \<and> h_lost (hd (handlers lost)) \<and> 0 < h_ops (hd (handlers lost))"
  using stop_closes_connection_in_flight [of lost "hd (handlers lost)"] reachable_lost
  by (simp add: lost_def served_def new_handler_def h_ops_def)

theorem wait_group_exact_witness:
  "reachable serving \<and> wg serving = int (live serving) \<and> live serving = 3"
  using reachable_serving wait_group_exact [OF reachable_serving] by (simp add: serving_def)

lemma reachable_stopped:
  "reachable (init\<lparr>stopped := True, spc := S_done, cancelled := True\<rparr>)"
proof -
  let ?a = "init\<lparr>stopped := True, spc := S_cancel, overlap := listen_under_way init\<rparr>"
  let ?b = "?a\<lparr>cancelled := True, spc := S_close\<rparr>"
  let ?c = "?b\<lparr>spc := S_wait\<rparr>"
  have "reachable ?a" by (rule stop_moves(1) [OF reachable.start]) (simp add: init_def)
  then have "reachable ?b" by (rule stop_moves(2)) simp
  then have "reachable ?c" by (rule stop_moves(4)) (simp_all add: init_def)
  then have "reachable (?c\<lparr>spc := S_done\<rparr>)" by (rule stop_moves(5)) (simp_all add: init_def)
  then show ?thesis by (simp add: init_def listen_under_way_def)
qed

theorem stop_quiesces_witness:
  "\<exists>s. reachable s \<and> spc s = S_done \<and> sock s \<noteq> Listening \<and> wg s = 0"
proof -
  let ?s = "init\<lparr>stopped := True, spc := S_done, cancelled := True\<rparr>"
  have "sock ?s \<noteq> Listening \<and> apc ?s \<noteq> A_accept \<and> apc ?s \<noteq> A_got \<and> wg ?s = 0 \<and>
      (\<forall>h \<in> set (handlers ?s). h_phase h = C_ended \<and> h_ops h = 0)"
    by (rule stop_quiesces [OF reachable_stopped]) (simp_all add: init_def)
  then show ?thesis using reachable_stopped by (intro exI [of _ ?s]) (simp add: init_def)
qed

section \<open>Stop returns\<close>

text \<open>
  What the outside can add while the node shuts down: a connection or a stream that was
  already on its way is handed out, the transport moves.  Everything else is work that the
  node and its agents have left; \<open>remaining\<close> bounds it.
\<close>

inductive arrival :: "lstate \<Rightarrow> lstate \<Rightarrow> bool" where
  new_connection: "apc s = A_accept \<Longrightarrow> arrival s (s\<lparr>apc := A_got\<rparr>)"
| new_stream: "i < length (handlers s) \<Longrightarrow> stream_accepted (handlers s ! i) d h \<Longrightarrow>
    arrival s (s\<lparr>handlers := (handlers s)[i := h], wg := wg s + d\<rparr>)"
| from_transport: "transport_step s s' \<Longrightarrow> arrival s s'"

definition quiet_step :: "lstate \<Rightarrow> lstate \<Rightarrow> bool" where
  "quiet_step s s' \<longleftrightarrow> step s s' \<and> \<not> arrival s s'"

text \<open>
  A handler in the HELLO exchange whose peer neither answers nor goes away; and a node none
  of whose handlers is in such an exchange or about to be.
\<close>

definition silent :: "handler \<Rightarrow> bool" where
  "silent h \<longleftrightarrow> h_phase h = C_hello \<and> \<not> h_hello h \<and> \<not> h_lost h"

definition responsive :: "handler \<Rightarrow> bool" where
  "responsive h \<longleftrightarrow> (h_phase h = C_prepare \<or> h_phase h = C_hello \<longrightarrow> h_hello h \<or> h_lost h)"

fun listen_left :: "listen_pc \<Rightarrow> nat" where
  "listen_left L_bind = 5"
| "listen_left L_set = 4"
| "listen_left L_add = 3"
| "listen_left L_spawn = 2"
| "listen_left _ = 0"

fun stop_left :: "stop_pc \<Rightarrow> nat" where
  "stop_left S_idle = 4"
| "stop_left S_cancel = 3"
| "stop_left S_close = 2"
| "stop_left S_wait = 1"
| "stop_left S_done = 0"

fun accept_left :: "loop_pc \<Rightarrow> nat" where
  "accept_left A_got = 3"
| "accept_left A_accept = 1"
| "accept_left _ = 0"

definition handler_left :: "handler \<Rightarrow> nat" where
  "handler_left h = (case h_phase h of C_control \<Rightarrow> 1 | C_prepare \<Rightarrow> 3 | C_hello \<Rightarrow> 2 | C_serving \<Rightarrow> 1 | C_ended \<Rightarrow> 0) +
     h_recv h + 2 * h_ready h + h_run h"

definition remaining :: "lstate \<Rightarrow> nat" where
  "remaining s = listen_left (lpc s) + stop_left (spc s) + accept_left (apc s) + sum_list (map handler_left (handlers s))"

lemmas left_update = sum_list_map_update [where f = handler_left]

lemma remaining_handler:
  assumes "i < length (handlers s)"
  shows "remaining (s\<lparr>handlers := (handlers s)[i := h], wg := w\<rparr>) + handler_left (handlers s ! i) = remaining s + handler_left h"
    and "remaining (s\<lparr>handlers := (handlers s)[i := h]\<rparr>) + handler_left (handlers s ! i) = remaining s + handler_left h"
  using left_update [OF assms, of h] by (simp_all add: remaining_def)

lemma move_left: "handler_move c h d h' \<Longrightarrow> stream_accepted h d h' \<or> handler_left h' < handler_left h"
  by (auto simp: handler_left_def elim: handler_move.cases)

lemma arrival_left:
  "stream_accepted h d h' \<Longrightarrow> handler_left h \<le> handler_left h'" "conn_event h h' \<Longrightarrow> handler_left h \<le> handler_left h'"
  by (auto simp: handler_left_def elim!: stream_accepted.cases conn_event.cases)

lemma handler_step_remaining: "handler_step s s' \<Longrightarrow> arrival s s' \<or> remaining s' < remaining s"
proof (induction rule: handler_step.induct)
  case (move i s d h)
  then show ?case
    using move_left [OF move(2)] remaining_handler(1) [OF move(1), of "wg s + d" h] new_stream [OF move(1)] by fastforce
qed

lemma step_remaining:
  assumes "step s s'" "stopped s" "spc s \<noteq> S_idle"
  shows "arrival s s' \<or> remaining s' < remaining s"
  using assms(1)
proof cases
  case 1
  then show ?thesis using assms(2) by cases (simp_all add: remaining_def)
next
  case 2
  then show ?thesis using assms(2) by cases (simp_all add: remaining_def)
next
  case 3
  then show ?thesis by cases (auto simp: remaining_def handler_left_def new_handler_def intro: new_connection)
next
  case 4
  then show ?thesis by (rule handler_step_remaining)
next
  case 5
  then show ?thesis by (blast intro: from_transport)
qed

lemma arrival_remaining: "arrival s s' \<Longrightarrow> remaining s \<le> remaining s'"
proof (induction rule: arrival.induct)
  case (new_connection s)
  then show ?case by (simp add: remaining_def)
next
  case (new_stream i s d h)
  then show ?case using remaining_handler(1) [OF new_stream(1), of "wg s + d" h] arrival_left(1) [OF new_stream(2)] by simp
next
  case (from_transport s s')
  then show ?case
  proof cases
    case (on_connection i h)
    then show ?thesis using remaining_handler(2) [OF on_connection(2), of h] arrival_left(2) [OF on_connection(3)] by simp
  qed (simp add: remaining_def)
qed

lemma quiet_stepI: "step s s' \<Longrightarrow> remaining s' < remaining s \<Longrightarrow> quiet_step s s'"
  using arrival_remaining [of s s'] unfolding quiet_step_def by linarith

text \<open>Once a call of \<^verbatim>\<open>Stop\<close> is past its test it stays so, and past its second statement the context is cancelled.\<close>

definition shutting_down :: "lstate \<Rightarrow> bool" where
  "shutting_down s \<longleftrightarrow> (stopped s \<longleftrightarrow> spc s \<noteq> S_idle) \<and>
     (spc s = S_close \<or> spc s = S_wait \<or> spc s = S_done \<longrightarrow> cancelled s)"

lemma stop_flags_frame:
  assumes "listen_step s s' \<or> accept_step s s' \<or> handler_step s s' \<or> transport_step s s'"
  shows "stopped s' = stopped s \<and> spc s' = spc s \<and> cancelled s' = cancelled s"
  using assms by (elim disjE) (auto elim: listen_step.cases accept_step.cases handler_step.cases transport_step.cases)

lemma shutting_down_stop: "stop_step s s' \<Longrightarrow> shutting_down s \<Longrightarrow> shutting_down s' \<and> stopped s'"
  by (induction rule: stop_step.induct) (simp_all add: shutting_down_def)

lemma shutting_down_step:
  assumes "step s s'" "shutting_down s" shows "shutting_down s' \<and> (stopped s \<longrightarrow> stopped s')"
  using assms(1) by cases (use stop_flags_frame [of s s'] shutting_down_stop [of s s'] assms(2) in \<open>auto simp: shutting_down_def\<close>)

lemma reachable_shutting_down: "reachable s \<Longrightarrow> shutting_down s"
  by (induction rule: reachable.induct) (simp add: init_def shutting_down_def, blast dest: shutting_down_step)

lemma stopped_step: "step s s' \<Longrightarrow> reachable s \<Longrightarrow> stopped s \<Longrightarrow> stopped s'"
  using shutting_down_step reachable_shutting_down by blast

text \<open>
  A live handler that is not silent can move without an arrival, and without entering the
  exchange.
\<close>

lemma move_enabled:
  assumes "handler_inv True h" "h_phase h \<noteq> C_ended \<or> 0 < h_ops h" "\<not> silent h"
  shows "\<exists>d h'. handler_move True h d h' \<and> handler_left h' < handler_left h \<and> \<not> silent h'"
proof -
  let ?e = "h\<lparr>h_phase := C_ended, h_closed := True\<rparr>"
  have ended: ?thesis if "handler_move True h (- 1) ?e" "h_phase h \<noteq> C_ended"
    using that by (intro exI [of _ "- 1"] exI [of _ ?e]) (cases "h_phase h"; simp add: handler_left_def silent_def)
  show ?thesis
  proof (cases "h_phase h")
    case C_control
    then show ?thesis using ended control_fails by simp
  next
    case C_prepare
    then show ?thesis using ended prepare_fails by simp
  next
    case C_hello
    then show ?thesis using ended handshake_fails assms(3) by (auto simp: silent_def)
  next
    case C_serving
    then show ?thesis using ended accept_operation_fails by simp
  next
    case C_ended
    then have "h_closed h" "0 < h_recv h \<or> 0 < h_ready h \<or> 0 < h_run h"
      using assms by (auto simp: handler_inv_def h_ops_def)
    then show ?thesis
    proof (elim disjE)
      assume "0 < h_recv h"
      with recv_fails [OF this, of True] \<open>h_closed h\<close> show ?thesis
        by (intro exI [of _ "- 1"] exI [of _ "h\<lparr>h_recv := h_recv h - 1\<rparr>"]) (simp add: C_ended handler_left_def silent_def)
    next
      assume "0 < h_ready h"
      with refused [OF this, of True] show ?thesis
        by (intro exI [of _ "- 1"] exI [of _ "h\<lparr>h_ready := h_ready h - 1\<rparr>"]) (simp add: C_ended handler_left_def silent_def)
    next
      assume "0 < h_run h"
      with agent_returns [OF this, of True] show ?thesis
        by (intro exI [of _ "- 1"] exI [of _ "h\<lparr>h_run := h_run h - 1\<rparr>"]) (simp add: C_ended handler_left_def silent_def)
    qed
  qed
qed

definition no_silent :: "lstate \<Rightarrow> bool" where
  "no_silent s \<longleftrightarrow> list_all (\<lambda>h. \<not> silent h) (handlers s)"

lemma no_silent_update: "no_silent s \<Longrightarrow> \<not> silent h \<Longrightarrow> no_silent (s\<lparr>handlers := (handlers s)[i := h], wg := w\<rparr>)"
  unfolding no_silent_def by (simp add: list_all_update)

lemma handler_enabled:
  assumes "h \<in> set (handlers s)" "h_phase h \<noteq> C_ended \<or> 0 < h_ops h" "cancelled s" "no_silent s"
    "list_all (handler_inv (cancelled s)) (handlers s)"
  shows "\<exists>s'. handler_step s s' \<and> remaining s' < remaining s \<and> no_silent s'"
proof -
  obtain i where i: "i < length (handlers s)" "handlers s ! i = h" using assms(1) by (auto simp: in_set_conv_nth)
  obtain d h' where m: "handler_move True h d h'" "handler_left h' < handler_left h" "\<not> silent h'"
    using move_enabled [of h] assms by (auto simp: no_silent_def list_all_iff)
  let ?s = "s\<lparr>handlers := (handlers s)[i := h'], wg := wg s + d\<rparr>"
  have "handler_step s ?s" using move [OF i(1), of d h'] m(1) i(2) assms(3) by simp
  moreover have "remaining ?s < remaining s" using remaining_handler(1) [OF i(1), of "wg s + d" h'] m(2) i(2) by simp
  ultimately show ?thesis using no_silent_update [OF assms(4) m(3)] by blast
qed

lemma wait_enabled:
  assumes "loop_inv s" "wg s = int (live s)" "cancelled s" "spc s = S_wait" "no_silent s"
    "list_all (handler_inv (cancelled s)) (handlers s)"
  shows "\<exists>s'. step s s' \<and> remaining s' < remaining s \<and> no_silent s'"
proof (cases "live s = 0")
  case True
  then have "step s (s\<lparr>spc := S_done\<rparr>)" using assms(2,4) by (intro step.intros(2) stop_step.wait) simp_all
  then show ?thesis using assms(4,5) by (intro exI conjI) (assumption, simp_all add: remaining_def no_silent_def)
next
  case False
  then consider "lpc s = L_spawn" | "apc s = A_accept" | "apc s = A_got"
    | h where "h \<in> set (handlers s)" "h_phase h \<noteq> C_ended \<or> 0 < h_ops h"
    unfolding live_0_iff by auto
  then show ?thesis
  proof cases
    case 1
    from step.intros(1) [OF listen_step.spawn [OF 1]] 1 assms(1,5) show ?thesis
      by (intro exI conjI) (assumption, auto simp: remaining_def loop_inv_def no_silent_def)
  next
    case 2
    from step.intros(3) [OF accept_step.accept_fails [OF 2 disjI1 [OF assms(3)]]] 2 assms(5) show ?thesis
      by (intro exI conjI) (assumption, simp_all add: remaining_def no_silent_def)
  next
    case 3
    from step.intros(3) [OF accept_step.spawn_handler [OF 3]] 3 assms(5) show ?thesis
      by (intro exI conjI) (assumption, simp_all add: remaining_def handler_left_def no_silent_def silent_def new_handler_def)
  next
    case 4
    then show ?thesis using handler_enabled [OF 4 assms(3,5,6)] step.intros(4) by blast
  qed
qed

lemma quiet_enabled:
  assumes "reachable s" "stopped s" "spc s \<noteq> S_done" "no_silent s"
  shows "\<exists>s'. quiet_step s s' \<and> remaining s' < remaining s \<and> no_silent s'"
proof -
  note inv = reachable_wg [OF assms(1)] reachable_shutting_down [OF assms(1)] reachable_handler_inv [OF assms(1)]
  have "\<exists>s'. step s s' \<and> remaining s' < remaining s \<and> no_silent s'"
  proof (cases "spc s")
    case S_cancel
    from step.intros(2) [OF stop_step.cancel [OF S_cancel]] S_cancel assms(4) show ?thesis
      by (intro exI conjI) (assumption, simp_all add: remaining_def no_silent_def)
  next
    case S_close
    let ?t = "if field_set s then s\<lparr>sock := Closed, spc := S_wait\<rparr> else s\<lparr>spc := S_wait\<rparr>"
    have "step s ?t"
      using stop_step.close_listener [OF S_close] stop_step.no_listener [OF S_close] step.intros(2) by simp
    then show ?thesis using S_close assms(4) by (intro exI [of _ ?t]) (simp add: remaining_def no_silent_def)
  next
    case S_wait
    then show ?thesis using inv assms(4) wait_enabled by (simp add: shutting_down_def)
  qed (use assms inv in \<open>simp_all add: shutting_down_def\<close>)
  then show ?thesis using quiet_stepI by blast
qed

lemma quiet_run_reachable: "quiet_step\<^sup>*\<^sup>* s s' \<Longrightarrow> reachable s \<Longrightarrow> stopped s \<Longrightarrow> reachable s' \<and> stopped s'"
  by (induction rule: rtranclp_induct) (auto simp: quiet_step_def intro: reachable.more stopped_step)

lemma quiet_decreases: "quiet_step s s' \<Longrightarrow> reachable s \<Longrightarrow> stopped s \<Longrightarrow> remaining s' < remaining s"
  using step_remaining [of s s'] reachable_shutting_down [of s] by (auto simp: quiet_step_def shutting_down_def)

lemma quiet_run_bound:
  "(quiet_step ^^ n) s s' \<Longrightarrow> reachable s \<Longrightarrow> stopped s \<Longrightarrow> n + remaining s' \<le> remaining s"
proof (induction n arbitrary: s')
  case (Suc n)
  then obtain t where t: "(quiet_step ^^ n) s t" "quiet_step t s'" by auto
  have "reachable t \<and> stopped t" using t(1) Suc.prems quiet_run_reachable by (blast dest: relpowp_imp_rtranclp)
  then have "remaining s' < remaining t" using t(2) quiet_decreases by blast
  then show ?case using Suc.IH [OF t(1)] Suc.prems by simp
qed simp

lemma quiet_run_done:
  assumes "reachable s" "stopped s" "no_silent s"
  shows "\<exists>s'. quiet_step\<^sup>*\<^sup>* s s' \<and> spc s' = S_done"
  using assms
proof (induction "remaining s" arbitrary: s rule: less_induct)
  case less
  show ?case
  proof (cases "spc s = S_done")
    case False
    then obtain s' where s': "quiet_step s s'" "remaining s' < remaining s" "no_silent s'" using quiet_enabled less.prems by blast
    have "reachable s' \<and> stopped s'" using quiet_run_reachable [of s s'] s'(1) less.prems by blast
    then show ?thesis using less.hyps [OF s'(2)] s'(1,3) by (meson converse_rtranclp_into_rtranclp)
  qed blast
qed

text \<open>A silent handler stays silent while nothing arrives, and the wait group counts it.\<close>

lemma silent_stuck: "silent h \<Longrightarrow> handler_inv c h \<Longrightarrow> \<not> handler_move c h d h'"
  by (auto simp: silent_def handler_inv_def h_ops_def elim!: move_cases)

lemma silent_kept:
  assumes "quiet_step s s'" "list_all (handler_inv (cancelled s)) (handlers s)" "h \<in> set (handlers s)" "silent h"
  shows "h \<in> set (handlers s')"
proof -
  have q: "step s s'" "\<not> transport_step s s'" using assms(1) by (auto simp: quiet_step_def intro: from_transport)
  from q(1) show ?thesis
  proof cases
    case 4
    then show ?thesis
    proof cases
      case (move i d k)
      obtain j where j: "j < length (handlers s)" "handlers s ! j = h" using assms(3) by (auto simp: in_set_conv_nth)
      have "i \<noteq> j" using silent_stuck [OF assms(4), of "cancelled s"] handler_inv_nth [OF assms(2) j(1)] j(2) move(3) by auto
      then have "handlers s' ! j = h" "j < length (handlers s')" using move(1) j by simp_all
      then show ?thesis using nth_mem by blast
    qed
  qed (use assms(3) q(2) in \<open>auto elim: listen_step.cases stop_step.cases accept_step.cases\<close>)
qed

lemma silent_not_done:
  assumes "stop_step s s'" "wg s = int (live s)" "h \<in> set (handlers s)" "silent h" "spc s \<noteq> S_done"
  shows "spc s' \<noteq> S_done"
proof -
  have "live s \<noteq> 0" using assms(3,4) by (auto simp: live_0_iff silent_def)
  then show ?thesis using assms(1,2,5) by (auto elim: stop_step.cases)
qed

lemma silent_run:
  assumes "quiet_step\<^sup>*\<^sup>* s s'" "reachable s" "stopped s" "h \<in> set (handlers s)" "silent h" "spc s \<noteq> S_done"
  shows "h \<in> set (handlers s') \<and> spc s' \<noteq> S_done"
  using assms(1)
proof (induction rule: rtranclp_induct)
  case (step t u)
  have t: "reachable t" using quiet_run_reachable step(1) assms(2,3) by blast
  have "spc u \<noteq> S_done"
    using step(2,3) silent_not_done [of t u h] reachable_wg [OF t] assms(5) stop_flags_frame [of t u]
    by (auto simp: quiet_step_def elim!: step.cases)
  then show ?case using silent_kept [OF step(2) reachable_handler_inv [OF t]] step(3) assms(5) by blast
qed (use assms in simp)

lemma responsive_move: "handler_move c h d h' \<Longrightarrow> \<not> stream_accepted h d h' \<Longrightarrow> responsive h \<Longrightarrow> responsive h'"
  by (auto simp: responsive_def elim: handler_move.cases)

lemma responsive_step:
  assumes "quiet_step s s'" "list_all responsive (handlers s)" shows "list_all responsive (handlers s')"
proof -
  have q: "step s s'" "\<not> arrival s s'" using assms(1) by (auto simp: quiet_step_def)
  from q(1) show ?thesis
  proof cases
    case 4
    then show ?thesis
    proof cases
      case (move i d h)
      have "\<not> stream_accepted (handlers s ! i) d h" using new_stream [OF move(2)] q(2) move(1) by blast
      then have "responsive h" using responsive_move [OF move(3)] assms(2) move(2) by (simp add: list_all_length)
      then show ?thesis using move(1) assms(2) by (simp add: list_all_update)
    qed
  qed (use assms(2) q(2) from_transport in \<open>auto simp: responsive_def new_handler_def
        elim: listen_step.cases stop_step.cases accept_step.cases\<close>)
qed

lemma responsive_run: "quiet_step\<^sup>*\<^sup>* s s' \<Longrightarrow> list_all responsive (handlers s) \<Longrightarrow> list_all responsive (handlers s')"
  by (induction rule: rtranclp_induct) (auto intro: responsive_step)

lemma responsive_no_silent: "list_all responsive (handlers s) \<Longrightarrow> no_silent s"
  by (auto simp: no_silent_def list_all_iff responsive_def silent_def)

text \<open>
  C11 (shutdown work is bounded).  After \<^verbatim>\<open>Stop\<close> has passed its test, the goroutines have only
  finitely much left to do: with nothing more arriving from outside, every run of
  the node takes at most \<open>remaining\<close> steps, whatever the interleaving.
\<close>

theorem stop_work_bounded:
  assumes "reachable s" "stopped s" "(quiet_step ^^ n) s s'"
  shows "n \<le> remaining s"
  using quiet_run_bound [OF assms(3,1,2)] by simp

text \<open>
  C6 (when Stop returns).  Take a call of \<^verbatim>\<open>Stop\<close> that is past its test and has not returned,
  and let nothing more arrive from outside.  It can come to its return exactly when no
  handler is in the HELLO exchange with a peer that neither answers nor goes away: such a
  handler is in a read that no context ends, and \<^verbatim>\<open>Stop\<close> waits for it as long as that peer
  keeps the connection alive.  A run in which no goroutine can move any more is one in which
  \<^verbatim>\<open>Stop\<close> has returned or is held up in that way; and when every handler that has the
  control stream has its peer's answer or a lost connection, every such run is one in which
  \<^verbatim>\<open>Stop\<close> has returned.  Agents are taken to return.
\<close>

theorem stop_returns:
  assumes "reachable s" "stopped s" "spc s \<noteq> S_done"
  shows "((\<exists>s'. quiet_step\<^sup>*\<^sup>* s s' \<and> spc s' = S_done) \<longleftrightarrow> (\<forall>h \<in> set (handlers s). \<not> silent h)) \<and>
         (\<forall>s'. quiet_step\<^sup>*\<^sup>* s s' \<longrightarrow> (\<nexists>t. quiet_step s' t) \<longrightarrow>
            spc s' = S_done \<or> (\<exists>h \<in> set (handlers s'). silent h)) \<and>
         ((\<forall>h \<in> set (handlers s). responsive h) \<longrightarrow>
            (\<forall>s'. quiet_step\<^sup>*\<^sup>* s s' \<longrightarrow> (\<nexists>t. quiet_step s' t) \<longrightarrow> spc s' = S_done))"
proof (intro conjI allI impI)
  have silent: "(\<forall>h \<in> set (handlers u). \<not> silent h) \<longleftrightarrow> no_silent u" for u by (simp add: no_silent_def list_all_iff)
  show "(\<exists>s'. quiet_step\<^sup>*\<^sup>* s s' \<and> spc s' = S_done) \<longleftrightarrow> (\<forall>h \<in> set (handlers s). \<not> silent h)"
    using silent_run [OF _ assms(1,2) _ _ assms(3)] quiet_run_done [OF assms(1,2)] silent [of s] by metis
  fix s'
  assume run: "quiet_step\<^sup>*\<^sup>* s s'" "\<nexists>t. quiet_step s' t"
  have stuck: "spc s' = S_done" if "no_silent s'"
    using that run(2) quiet_enabled [of s'] quiet_run_reachable [OF run(1) assms(1,2)] by blast
  show "spc s' = S_done \<or> (\<exists>h \<in> set (handlers s'). silent h)" using stuck silent [of s'] by blast
  assume "\<forall>h \<in> set (handlers s). responsive h"
  then have "list_all responsive (handlers s)" by (simp add: list_all_iff)
  from responsive_no_silent [OF responsive_run [OF run(1) this]] show "spc s' = S_done" by (rule stuck)
qed

definition stopping :: lstate where
  "stopping = serving\<lparr>stopped := True, spc := S_cancel\<rparr>"

lemma reachable_stopping: "reachable stopping"
proof -
  have "reachable (serving\<lparr>stopped := True, spc := S_cancel, overlap := listen_under_way serving\<rparr>)"
    by (rule stop_moves(1) [OF reachable_serving]) (simp add: serving_def)
  then show ?thesis by (simp add: stopping_def serving_def listen_under_way_def one_conn_def)
qed

theorem stop_work_bounded_witness:
  "\<exists>s'. (quiet_step ^^ 1) stopping s' \<and> spc s' = S_close \<and> 1 \<le> remaining stopping \<and> remaining stopping = 6"
proof -
  let ?t = "stopping\<lparr>cancelled := True, spc := S_close\<rparr>"
  have "step stopping ?t" by (intro step.intros(2) stop_step.cancel) (simp add: stopping_def)
  then have "quiet_step stopping ?t" by (rule quiet_stepI) (simp add: remaining_def stopping_def)
  then have q: "(quiet_step ^^ 1) stopping ?t" by (simp only: relpowp_1)
  have "stopped stopping" by (simp add: stopping_def)
  from stop_work_bounded [OF reachable_stopping this q] q show ?thesis
    by (intro exI [of _ ?t]) (simp add: stopping_def serving_def served_def new_handler_def remaining_def handler_left_def)
qed

text \<open>The same with a peer that opened the control stream and says nothing.\<close>

definition held_up :: lstate where
  "held_up = one_conn (new_handler\<lparr>h_phase := C_hello\<rparr>) 2\<lparr>stopped := True, spc := S_cancel\<rparr>"

lemma reachable_held_up: "reachable held_up"
  using stop_moves(1) [OF reachable_exchanging] by (simp add: held_up_def listen_under_way_def one_conn_def)

theorem stop_returns_witness:
  "(\<exists>s'. quiet_step\<^sup>*\<^sup>* stopping s' \<and> spc s' = S_done) \<and> reachable held_up \<and> \<not> (\<exists>s'. quiet_step\<^sup>*\<^sup>* held_up s' \<and> spc s' = S_done)"
proof -
  have "\<forall>h \<in> set (handlers stopping). \<not> silent h" by (simp add: stopping_def serving_def served_def silent_def)
  moreover have "\<exists>h \<in> set (handlers held_up). silent h" by (simp add: held_up_def silent_def new_handler_def)
  moreover have "stopped stopping" "spc stopping \<noteq> S_done" "stopped held_up" "spc held_up \<noteq> S_done"
    by (simp_all add: stopping_def held_up_def)
  ultimately show ?thesis
    using stop_returns [of stopping] stop_returns [of held_up] reachable_stopping reachable_held_up by blast
qed

end
