(* ===== verification/Session.thy ===== *)
theory Session imports Node begin

text \<open>
  \<^verbatim>\<open>conn.go\<close>: listeners and dialling, the entry points through which the two sides of a
  connection come into being, and what a whole session of the library amounts to: dial,
  accept, handshake on both sides, an invocation and its dispatch.

  The QUIC endpoint functions are arguments: \<open>listenAddr\<close> and \<open>dialAddr\<close> answer with a listener
  or a connection of the transport, and a listener of the transport answers the \<open>i\<close>-th accept.
\<close>

section \<open>Listeners and dialling\<close>

record QListener =
  ql_accept :: "nat \<Rightarrow> QConn outcome"
  ql_accepted :: nat
  ql_addr :: string
  ql_closed :: bool

record Listener =
  l_ql :: QListener

definition Listen :: "(string \<Rightarrow> 'tls \<Rightarrow> QListener outcome) \<Rightarrow> string \<Rightarrow> 'tls \<Rightarrow> Listener outcome" where
  "Listen listenAddr addr tlsConf =
     obind (on_err (Wrap (''aire: Listen '' @ addr)) (listenAddr addr tlsConf)) (\<lambda>ql. Ok \<lparr>l_ql = ql\<rparr>)"

definition ql_Accept :: "QListener \<Rightarrow> QConn outcome \<times> QListener" where
  "ql_Accept ql = (ql_accept ql (ql_accepted ql), ql\<lparr>ql_accepted := Suc (ql_accepted ql)\<rparr>)"

definition Listener_Accept :: "Listener \<Rightarrow> Conn outcome \<times> Listener" where
  "Listener_Accept l =
     (case ql_Accept (l_ql l) of
        (res, ql) \<Rightarrow>
          (obind (on_err (Wrap ''aire: Accept'') res) (\<lambda>qc.
             Ok \<lparr>c_qc = qc, c_isClient = False, c_ctrl = None, c_state = None\<rparr>),
           l\<lparr>l_ql := ql\<rparr>))"

definition Listener_Addr :: "Listener \<Rightarrow> string" where
  "Listener_Addr l = ql_addr (l_ql l)"

definition Listener_Close :: "Listener \<Rightarrow> Listener" where
  "Listener_Close l = l\<lparr>l_ql := (l_ql l)\<lparr>ql_closed := True\<rparr>\<rparr>"

definition Dial :: "(string \<Rightarrow> 'tls \<Rightarrow> QConn outcome) \<Rightarrow> string \<Rightarrow> 'tls \<Rightarrow> Conn outcome" where
  "Dial dialAddr addr tlsConf =
     obind (on_err (Wrap (''aire: Dial '' @ addr)) (dialAddr addr tlsConf)) (\<lambda>qc.
     Ok \<lparr>c_qc = qc, c_isClient = True, c_ctrl = None, c_state = None\<rparr>)"

text \<open>\<^verbatim>\<open>Node.Addr\<close>: the empty string before \<^verbatim>\<open>Listen\<close> has set the listener.\<close>

definition Node_Addr :: "Listener option \<Rightarrow> string" where
  "Node_Addr listener = (case listener of None \<Rightarrow> '''' | Some l \<Rightarrow> Listener_Addr l)"

section \<open>Fresh connections\<close>

text \<open>What a caller can rely on for a connection it was just handed: nothing has been agreed on it.\<close>

definition fresh :: "Conn \<Rightarrow> bool" where
  "fresh c \<longleftrightarrow> c_ctrl c = None \<and> c_state c = None"

lemma Dial_Ok_iff:
  "Dial dialAddr addr tlsConf = Ok c \<longleftrightarrow>
   (\<exists>qc. dialAddr addr tlsConf = Ok qc \<and> c = \<lparr>c_qc = qc, c_isClient = True, c_ctrl = None, c_state = None\<rparr>)"
  by (auto simp: Dial_def obind_eq_Ok_iff on_err_eq_Ok_iff)

lemma Accept_Ok_iff:
  "fst (Listener_Accept l) = Ok c \<longleftrightarrow>
   (\<exists>qc. ql_accept (l_ql l) (ql_accepted (l_ql l)) = Ok qc \<and>
         c = \<lparr>c_qc = qc, c_isClient = False, c_ctrl = None, c_state = None\<rparr>)"
  by (auto simp: Listener_Accept_def ql_Accept_def obind_eq_Ok_iff on_err_eq_Ok_iff)

text \<open>Before its handshake a connection carries no operation, whichever side it is on.\<close>

lemma fresh_no_operation:
  "fresh c \<Longrightarrow> fst (NewOperation c) \<noteq> Ok op \<and> fst (AcceptOperation c) \<noteq> Ok op"
  by (simp add: fresh_def NewOperation_def AcceptOperation_def)

lemma fresh_connections:
  "Dial dialAddr addr tlsConf = Ok c \<Longrightarrow> fresh c \<and> c_isClient c"
  "fst (Listener_Accept l) = Ok c \<Longrightarrow> fresh c \<and> \<not> c_isClient c"
  by (auto simp: Dial_Ok_iff Accept_Ok_iff fresh_def)

section \<open>Handshakes on fresh connections\<close>

text \<open>The dialling side opens the control stream, the accepting side accepts it.\<close>

lemma Conn_Handshake_fresh:
  assumes "fresh c" "(if c_isClient c then q_open (c_qc c) (q_opened (c_qc c)) else q_accept (c_qc c) (q_accepted (c_qc c))) = Ok ctrl"
    and "runHandshake env ctrl cfg = (Ok st, ctrl', v)"
  shows "\<exists>c'. Conn_Handshake env c cfg = (Ok st, c', v) \<and> c_state c' = Some st \<and>
    q_open (c_qc c') = q_open (c_qc c) \<and> q_accept (c_qc c') = q_accept (c_qc c) \<and>
    q_opened (c_qc c') = (if c_isClient c then Suc (q_opened (c_qc c)) else q_opened (c_qc c)) \<and>
    q_accepted (c_qc c') = (if c_isClient c then q_accepted (c_qc c) else Suc (q_accepted (c_qc c)))"
  using assms by (auto simp: fresh_def Conn_Handshake_def OpenStreamSync_def AcceptStream_q_def)

section \<open>Operations on the streams of a connection\<close>

lemma AcceptOperation_Ok:
  assumes "c_state c = Some st" "q_accept (c_qc c) (q_accepted (c_qc c)) = Ok s"
  shows "\<exists>c'. AcceptOperation c = (Ok \<lparr>op_OpID = s_ID s, op_stream = s, op_conn = Some c'\<rparr>, c') \<and> c_state c' = Some st"
  using assms by (simp add: AcceptOperation_def Conn_AcceptStream_def AcceptStream_q_def)

text \<open>The bytes of an INVOKE frame on a stream with the given number.\<close>

definition invoke_frame :: "u64 \<Rightarrow> string \<Rightarrow> string \<Rightarrow> bytes \<Rightarrow> bytes outcome" where
  "invoke_frame opID agentID opName args =
     obind (encodeInvokePayload agentID opName args) (\<lambda>payload.
     Frame_Encode \<lparr>f_Type = FrameInvoke, f_Flags = 0, f_OpID = opID, f_Payload = payload\<rparr>)"

lemma Conn_Invoke_Ok:
  assumes "c_state c = Some st" "q_open (c_qc c) (q_opened (c_qc c)) = Ok s"
    and "\<forall>bs. s_write s bs = None" "invoke_frame (s_ID s) agentID opName args = Ok bs"
  shows "\<exists>op c'. Conn_Invoke c agentID opName args = (Ok op, c') \<and> op_OpID op = s_ID s \<and>
           s_sent (op_stream op) = s_sent s @ [bs] \<and> s_in (op_stream op) = s_in s \<and>
           c' = c\<lparr>c_qc := (c_qc c)\<lparr>q_opened := Suc (q_opened (c_qc c))\<rparr>\<rparr>"
proof -
  let ?c' = "c\<lparr>c_qc := (c_qc c)\<lparr>q_opened := Suc (q_opened (c_qc c))\<rparr>\<rparr>"
  have n: "NewOperation c = (Ok \<lparr>op_OpID = s_ID s, op_stream = s, op_conn = Some ?c'\<rparr>, ?c')"
    using assms(1,2) by (simp add: NewOperation_def Conn_OpenStream_def OpenStreamSync_def)
  obtain payload where p: "encodeInvokePayload agentID opName args = Ok payload"
      "Frame_Encode \<lparr>f_Type = FrameInvoke, f_Flags = 0, f_OpID = s_ID s, f_Payload = payload\<rparr> = Ok bs"
    using assms(4) unfolding invoke_frame_def obind_eq_Ok_iff by blast
  show ?thesis using n p assms(3) by (simp add: Conn_Invoke_def Operation_Send_def Stream_SendFrame_def)
qed

lemma invoke_frame_Ok:
  assumes "length agentID + length opName + length args + 16 \<le> unat MaxFrameSize" "opID \<le> MaxVarint"
  shows "\<exists>bs. invoke_frame opID agentID opName args = Ok bs \<and>
    (\<forall>rest. Decode (bs @ rest) =
       Ok (\<lparr>f_Type = FrameInvoke, f_Flags = 0, f_OpID = opID, f_Payload = wire_string agentID @ wire_string opName @ args\<rparr>, length bs))"
proof -
  let ?f = "\<lparr>f_Type = FrameInvoke, f_Flags = 0, f_OpID = opID, f_Payload = wire_string agentID @ wire_string opName @ args\<rparr>"
  have len: "length agentID < 2 ^ 62" "length opName < 2 ^ 62" using assms(1) by auto
  have wf: "Frame_wf ?f"
    using assms length_varint_le [of "word_of_nat (length agentID)"] length_varint_le [of "word_of_nat (length opName)"]
    by (simp add: Frame_wf_def wire_string_def)
  obtain bs where bs: "Frame_Encode ?f = Ok bs" using frame.enc_total [OF wf] by blast
  then have "invoke_frame opID agentID opName args = Ok bs"
    by (simp add: invoke_frame_def encodeInvokePayload_Ok [OF len])
  then show ?thesis using frame.dec_enc_append [OF wf bs] by blast
qed

text \<open>A client that was just connected shakes hands and invokes an agent.\<close>

lemma client_invokes:
  assumes "fresh conn" "c_isClient conn" "q_open (c_qc conn) (q_opened (c_qc conn)) = Ok ctrl"
    and "fst (runHandshake env ctrl cfg) = Ok st" "q_open (c_qc conn) (Suc (q_opened (c_qc conn))) = Ok s"
    and "\<forall>bs. s_write s bs = None" "s_ID s \<le> MaxVarint"
    and "length agentID + length opName + length args + 16 \<le> unat MaxFrameSize"
  shows "\<exists>c' v op c''. Conn_Handshake env conn cfg = (Ok st, c', v) \<and> Conn_Invoke c' agentID opName args = (Ok op, c'') \<and>
    op_OpID op = s_ID s \<and> s_in (op_stream op) = s_in s"
proof -
  obtain ctrl' v where run: "runHandshake env ctrl cfg = (Ok st, ctrl', v)" using assms(4) by (metis prod.collapse)
  obtain c' where c': "Conn_Handshake env conn cfg = (Ok st, c', v)" "c_state c' = Some st"
      "q_open (c_qc c') (q_opened (c_qc c')) = Ok s"
    using Conn_Handshake_fresh [OF assms(1) _ run] assms(2,3,5) by auto
  obtain bs where "invoke_frame (s_ID s) agentID opName args = Ok bs" using invoke_frame_Ok [OF assms(8,7)] by blast
  then show ?thesis using c'(1) Conn_Invoke_Ok [OF c'(2,3) assms(6)] by blast
qed

text \<open>A server operation on which an INVOKE frame has arrived runs the agent it names.\<close>

lemma invoke_frame_dispatched:
  assumes "invoke_frame opID agentID opName args = Ok bs" "opID \<le> MaxVarint"
    and "length agentID + length opName + length args + 16 \<le> unat MaxFrameSize"
    and "op_OpID server = opID" "concat (rd_chunks (s_in (op_stream server))) = bs @ rest"
    and "n_agents n agentID = Some agent"
  shows "\<exists>iv. handleOperation n server = (Some iv, Operation_Close (snd (agent iv))) \<and>
    inv_AgentID iv = agentID \<and> inv_Operation iv = opName \<and> inv_Args iv = args \<and>
    inv_PeerNodeID iv = Operation_PeerNodeID server \<and> inv_Op iv = snd (Operation_Recv server)"
proof -
  let ?f = "\<lparr>f_Type = FrameInvoke, f_Flags = 0, f_OpID = opID, f_Payload = wire_string agentID @ wire_string opName @ args\<rparr>"
  have len: "length agentID < 2 ^ 62" "length opName < 2 ^ 62" using assms(3) by auto
  have "Decode (pending (s_in (op_stream server))) = Ok (?f, length bs)"
    using invoke_frame_Ok [OF assms(3,2)] assms(1,5) by (auto simp: pending_def)
  then have r: "fst (Operation_Recv server) = Ok ?f" by (rule Recv_delivered(1)) (simp add: assms(4))
  have "decodeInvokePayload (f_Payload ?f) = Ok (agentID, opName, args)" using decodeInvokePayload_wire [OF len] by simp
  from handleOperation_invoked [OF r _ this assms(6)] show ?thesis by (simp add: Let_def)
qed

text \<open>
  What the transport promises of the two ends \<open>qa\<close> and \<open>qb\<close> of one QUIC connection: the streams
  that the dialling end opens are accepted in that order at the other, with the same
  number, which fits a varint, and a healthy stream takes what is written to it.
\<close>

definition paired :: "QConn \<Rightarrow> QConn \<Rightarrow> Stream \<Rightarrow> Stream \<Rightarrow> Stream \<Rightarrow> Stream \<Rightarrow> bool" where
  "paired qa qb ctrlA ctrlB opA opB \<longleftrightarrow>
     q_open qa (q_opened qa) = Ok ctrlA \<and> q_accept qb (q_accepted qb) = Ok ctrlB \<and>
     q_open qa (Suc (q_opened qa)) = Ok opA \<and> q_accept qb (Suc (q_accepted qb)) = Ok opB \<and>
     s_ID opA = s_ID opB \<and> s_ID opA \<le> MaxVarint \<and> (\<forall>bs. s_write opA bs = None)"

text \<open>After handshakes that completed on the control streams, an invocation reaches the agent it names.\<close>

lemma session_invocation:
  assumes "paired qa qb ctrlA ctrlB opA opB"
    and "dialAddr addr tls = Ok qa" "ql_accept (l_ql l) (ql_accepted (l_ql l)) = Ok qb"
    and "fst (runHandshake envA ctrlA cfgA) = Ok stA" "fst (runHandshake envB ctrlB (n_cfg n)) = Ok stB"
    and "n_agents n agentID = Some agent"
    and "length agentID + length opName + length args + 16 \<le> unat MaxFrameSize"
    and "invoke_frame (s_ID opA) agentID opName args = Ok bs" "concat (rd_chunks (s_in opB)) = bs @ rest"
  shows "\<exists>c l' s c' vA s' vB op c'' sop s'' iv.
    Dial dialAddr addr tls = Ok c \<and> Listener_Accept l = (Ok s, l') \<and>
    Conn_Handshake envA c cfgA = (Ok stA, c', vA) \<and> Conn_Handshake envB s (n_cfg n) = (Ok stB, s', vB) \<and>
    Conn_Invoke c' agentID opName args = (Ok op, c'') \<and> s_sent (op_stream op) = s_sent opA @ [bs] \<and>
    AcceptOperation s' = (Ok sop, s'') \<and>
    handleOperation n sop = (Some iv, Operation_Close (snd (agent iv))) \<and>
    inv_AgentID iv = agentID \<and> inv_Operation iv = opName \<and> inv_Args iv = args \<and> inv_PeerNodeID iv = hs_PeerNodeID stB"
proof -
  note q = assms(1) [unfolded paired_def]
  let ?c = "\<lparr>c_qc = qa, c_isClient = True, c_ctrl = None, c_state = None\<rparr>"
  let ?s = "\<lparr>c_qc = qb, c_isClient = False, c_ctrl = None, c_state = None\<rparr>"
  have dial: "Dial dialAddr addr tls = Ok ?c" using assms(2) by (simp add: Dial_Ok_iff)
  have "fst (Listener_Accept l) = Ok ?s" using assms(3) by (simp add: Accept_Ok_iff)
  then obtain l' where acc: "Listener_Accept l = (Ok ?s, l')" by (metis prod.collapse)
  obtain ctrlA' vA ctrlB' vB where run: "runHandshake envA ctrlA cfgA = (Ok stA, ctrlA', vA)"
      "runHandshake envB ctrlB (n_cfg n) = (Ok stB, ctrlB', vB)"
    using assms(4,5) by (metis prod.collapse)
  obtain c' where c': "Conn_Handshake envA ?c cfgA = (Ok stA, c', vA)" "c_state c' = Some stA"
      "q_open (c_qc c') (q_opened (c_qc c')) = Ok opA"
    using Conn_Handshake_fresh [of ?c ctrlA envA cfgA, OF _ _ run(1)] q by (auto simp: fresh_def)
  obtain s' where s': "Conn_Handshake envB ?s (n_cfg n) = (Ok stB, s', vB)" "c_state s' = Some stB"
      "q_accept (c_qc s') (q_accepted (c_qc s')) = Ok opB"
    using Conn_Handshake_fresh [of ?s ctrlB envB "n_cfg n", OF _ _ run(2)] q by (auto simp: fresh_def)
  obtain op c'' where op: "Conn_Invoke c' agentID opName args = (Ok op, c'')" "s_sent (op_stream op) = s_sent opA @ [bs]"
    using Conn_Invoke_Ok [OF c'(2,3) _ assms(8)] q by blast
  obtain s'' where sop: "AcceptOperation s' = (Ok \<lparr>op_OpID = s_ID opB, op_stream = opB, op_conn = Some s''\<rparr>, s'')"
      "c_state s'' = Some stB" using AcceptOperation_Ok [OF s'(2,3)] by blast
  let ?sop = "\<lparr>op_OpID = s_ID opB, op_stream = opB, op_conn = Some s''\<rparr>"
  obtain iv where iv: "handleOperation n ?sop = (Some iv, Operation_Close (snd (agent iv)))" "inv_AgentID iv = agentID"
      "inv_Operation iv = opName" "inv_Args iv = args" "inv_PeerNodeID iv = Operation_PeerNodeID ?sop"
    using invoke_frame_dispatched [OF assms(8) _ assms(7) _ _ assms(6), of ?sop rest] q assms(9) by auto
  then have "inv_PeerNodeID iv = hs_PeerNodeID stB" using sop(2) by (simp add: Operation_PeerNodeID_def)
  with dial acc c'(1) s'(1) op sop(1) iv show ?thesis by blast
qed

end
