(* ===== verification/Go_Text.thy ===== *)
theory Go_Text imports Base58 begin

text \<open>
  The parts of \<^verbatim>\<open>strconv\<close>, \<^verbatim>\<open>unicode/utf8\<close> and \<^verbatim>\<open>strings\<close> that the demo agents use: decimal
  numbers, the conversion between byte strings and runes, and \<^verbatim>\<open>strings.Fields\<close>.  A rune is the
  number of its code point.
\<close>

section \<open>Decimal numbers\<close>

definition decimal :: "nat \<Rightarrow> string" where
  "decimal n = (if n = 0 then ''0'' else map (\<lambda>d. char_of (48 + d)) (digits 10 n))"

text \<open>\<^verbatim>\<open>strconv.Itoa\<close>, and the verb \<^verbatim>\<open>%d\<close> on an \<^verbatim>\<open>int\<close>.\<close>

definition Itoa :: "int \<Rightarrow> string" where
  "Itoa i = (if i < 0 then CHR ''-'' # decimal (nat (- i)) else decimal (nat i))"

definition digit :: "char \<Rightarrow> bool" where
  "digit c \<longleftrightarrow> 48 \<le> (of_char c :: nat) \<and> (of_char c :: nat) \<le> 57"

definition digit_val :: "char \<Rightarrow> nat" where
  "digit_val c = of_char c - 48"

text \<open>\<^verbatim>\<open>strconv.Atoi\<close> on a 64-bit platform: an optional sign, digits, and the range of an \<^verbatim>\<open>int64\<close>.\<close>

definition Atoi :: "string \<Rightarrow> int outcome" where
  "Atoi s =
     (let neg = (s \<noteq> [] \<and> hd s = CHR ''-'');
          ds = (if s \<noteq> [] \<and> (hd s = CHR ''-'' \<or> hd s = CHR ''+'') then tl s else s)
      in if ds = [] \<or> \<not> list_all digit ds then Err (Errorf ''strconv.Atoi: invalid syntax'')
         else
           let n = int (val 10 (map digit_val ds)) in
           if neg then (if n > 2 ^ 63 then Err (Errorf ''strconv.Atoi: value out of range'') else Ok (- n))
           else if n \<ge> 2 ^ 63 then Err (Errorf ''strconv.Atoi: value out of range'') else Ok n)"

interpretation decimal: numeral_base 10
  by unfold_locales simp

lemma of_char_digit: "d < 10 \<Longrightarrow> of_char (char_of (48 + d) :: char) = (48 + d :: nat)"
  by simp

lemma decimal_digits:
  "decimal n \<noteq> []" "list_all digit (decimal n)" "val 10 (map digit_val (decimal n)) = n"
proof -
  have d: "digit (char_of (48 + d))" "digit_val (char_of (48 + d)) = d" if "d \<in> set (digits 10 n)" for d
    using decimal.digits_less [OF that] by (simp_all add: digit_def digit_val_def of_char_digit)
  show "decimal n \<noteq> []" using decimal.digits_step [of n] by (simp add: decimal_def)
  show "list_all digit (decimal n)" using d by (auto simp: decimal_def list_all_iff digit_def)
  have "map digit_val (map (\<lambda>d. char_of (48 + d)) (digits 10 n)) = digits 10 n"
    using d(2) by (simp add: map_idI)
  then show "val 10 (map digit_val (decimal n)) = n"
    using decimal.val_digits [of n] by (cases "n = 0") (simp_all add: decimal_def digit_val_def val_def del: map_map)
qed

lemma digit_not_sign: "digit c \<Longrightarrow> c \<noteq> CHR ''-'' \<and> c \<noteq> CHR ''+''"
  by (auto simp: digit_def)

lemma Atoi_Itoa:
  assumes "- (2 ^ 63) \<le> i" "i < 2 ^ 63" shows "Atoi (Itoa i) = Ok i"
proof -
  note d = decimal_digits [of "nat i"] and n = decimal_digits [of "nat (- i)"]
  have "hd (decimal (nat i)) \<noteq> CHR ''-'' \<and> hd (decimal (nat i)) \<noteq> CHR ''+''"
    using d(1,2) digit_not_sign by (cases "decimal (nat i)") auto
  then show ?thesis using d n assms by (auto simp: Atoi_def Itoa_def Let_def)
qed

lemma decimal_inject [simp]: "decimal m = decimal n \<longleftrightarrow> m = n"
  by (metis decimal_digits(3))

section \<open>Runes\<close>

definition RuneError :: nat where
  "RuneError = 0xFFFD"

text \<open>Length of the sequence that a byte starts and the range of its second byte.\<close>

definition rune_lead :: "nat \<Rightarrow> (nat \<times> nat \<times> nat) option" where
  "rune_lead x =
     (if 0xC2 \<le> x \<and> x \<le> 0xDF then Some (2, 0x80, 0xBF)
      else if x = 0xE0 then Some (3, 0xA0, 0xBF)
      else if x = 0xED then Some (3, 0x80, 0x9F)
      else if 0xE1 \<le> x \<and> x \<le> 0xEF then Some (3, 0x80, 0xBF)
      else if x = 0xF0 then Some (4, 0x90, 0xBF)
      else if x = 0xF4 then Some (4, 0x80, 0x8F)
      else if 0xF1 \<le> x \<and> x \<le> 0xF3 then Some (4, 0x80, 0xBF)
      else None)"

definition cont_byte :: "nat \<Rightarrow> bool" where
  "cont_byte b \<longleftrightarrow> 0x80 \<le> b \<and> b \<le> 0xBF"

definition at :: "bytes \<Rightarrow> nat \<Rightarrow> nat" where
  "at p i = unat (p ! i)"

text \<open>\<^verbatim>\<open>utf8.DecodeRune\<close>: an invalid sequence is one byte wide and reads as \<open>RuneError\<close>.\<close>

definition DecodeRune :: "bytes \<Rightarrow> nat \<times> nat" where
  "DecodeRune p =
     (if p = [] then (RuneError, 0)
      else if at p 0 < 0x80 then (at p 0, 1)
      else case rune_lead (at p 0) of
        None \<Rightarrow> (RuneError, 1)
      | Some (n, lo, hi) \<Rightarrow>
          if length p < n \<or> at p 1 < lo \<or> hi < at p 1 then (RuneError, 1)
          else if n = 2 then ((at p 0 - 0xC0) * 64 + (at p 1 - 0x80), 2)
          else if \<not> cont_byte (at p 2) then (RuneError, 1)
          else if n = 3 then ((at p 0 - 0xE0) * 4096 + (at p 1 - 0x80) * 64 + (at p 2 - 0x80), 3)
          else if \<not> cont_byte (at p 3) then (RuneError, 1)
          else ((at p 0 - 0xF0) * 262144 + (at p 1 - 0x80) * 4096 + (at p 2 - 0x80) * 64 + (at p 3 - 0x80), 4))"

lemma DecodeRune_size: "p \<noteq> [] \<Longrightarrow> 0 < snd (DecodeRune p)"
  by (simp add: DecodeRune_def split: option.split)

lemma rune_lead_size: "rune_lead x = Some (n, lo, hi) \<Longrightarrow> 2 \<le> n \<and> n \<le> 4 \<and> 0x80 \<le> lo \<and> hi \<le> 0xBF"
  by (auto simp: rune_lead_def split: if_splits)

lemma DecodeRune_size_le: "snd (DecodeRune p) \<le> length p"
proof (cases "rune_lead (at p 0)")
  case None
  then show ?thesis by (cases p) (simp_all add: DecodeRune_def)
next
  case (Some x)
  then obtain n lo hi where x: "rune_lead (at p 0) = Some (n, lo, hi)" by (cases x) auto
  then show ?thesis using rune_lead_size [OF x] by (cases p) (auto simp: DecodeRune_def Suc_le_eq)
qed

text \<open>The runes of a byte string, each with the bytes it was read from: \<^verbatim>\<open>for _, r := range s\<close>.\<close>

function rune_spans :: "bytes \<Rightarrow> (nat \<times> bytes) list" where
  "rune_spans p =
     (if p = [] then []
      else let (r, n) = DecodeRune p in (r, take n p) # rune_spans (drop n p))"
  by pat_completeness auto
termination
proof (relation "measure length")
  fix p :: bytes and x r n
  assume "p \<noteq> []" "x = DecodeRune p" "(r, n) = x"
  then have "0 < n" using DecodeRune_size [of p] by (metis snd_conv)
  then show "(drop n p, p) \<in> measure length" using \<open>p \<noteq> []\<close> by (cases p) auto
qed simp

declare rune_spans.simps [simp del]

text \<open>The conversions \<^verbatim>\<open>[]rune(s)\<close> and \<^verbatim>\<open>string(r)\<close>.\<close>

definition runes :: "bytes \<Rightarrow> nat list" where
  "runes p = map fst (rune_spans p)"

definition scalar :: "nat \<Rightarrow> bool" where
  "scalar r \<longleftrightarrow> r \<le> 0x10FFFF \<and> \<not> (0xD800 \<le> r \<and> r \<le> 0xDFFF)"

definition EncodeRune :: "nat \<Rightarrow> bytes" where
  "EncodeRune r0 =
     (let r = (if scalar r0 then r0 else RuneError) in
      map word_of_nat
       (if r < 0x80 then [r]
        else if r < 0x800 then [0xC0 + r div 64, 0x80 + r mod 64]
        else if r < 0x10000 then [0xE0 + r div 4096, 0x80 + r div 64 mod 64, 0x80 + r mod 64]
        else [0xF0 + r div 262144, 0x80 + r div 4096 mod 64, 0x80 + r div 64 mod 64, 0x80 + r mod 64]))"

definition string_of_runes :: "nat list \<Rightarrow> bytes" where
  "string_of_runes rs = concat (map EncodeRune rs)"

lemma at_Cons: "at (b # p) 0 = unat b" "at (b # c # p) 1 = unat c" "at (b # c # d # p) 2 = unat d"
    "at (b # c # d # e # p) 3 = unat e" "at (b # c # p) (Suc 0) = unat c"
  by (simp_all add: at_def numeral_2_eq_2 numeral_3_eq_3)

lemma unat_small: "n < 256 \<Longrightarrow> unat (word_of_nat n :: byte) = n"
  by (simp add: unsigned_of_nat take_bit_nat_eq_self)

lemma DecodeRune_2:
  assumes "rune_lead a = Some (2, lo, hi)" "0x80 \<le> a" "a < 256" "lo \<le> b" "b \<le> hi"
  shows "DecodeRune (word_of_nat a # word_of_nat b # p) = ((a - 0xC0) * 64 + (b - 0x80), 2)"
  using assms rune_lead_size [OF assms(1)] by (simp add: DecodeRune_def at_Cons unat_small)

lemma DecodeRune_3:
  assumes "rune_lead a = Some (3, lo, hi)" "0x80 \<le> a" "a < 256" "lo \<le> b" "b \<le> hi" "cont_byte c"
  shows "DecodeRune (word_of_nat a # word_of_nat b # word_of_nat c # p) =
    ((a - 0xE0) * 4096 + (b - 0x80) * 64 + (c - 0x80), 3)"
  using assms rune_lead_size [OF assms(1)] by (simp add: DecodeRune_def at_Cons unat_small cont_byte_def)

lemma DecodeRune_4:
  assumes "rune_lead a = Some (4, lo, hi)" "0x80 \<le> a" "a < 256" "lo \<le> b" "b \<le> hi" "cont_byte c" "cont_byte d"
  shows "DecodeRune (word_of_nat a # word_of_nat b # word_of_nat c # word_of_nat d # p) =
    ((a - 0xF0) * 262144 + (b - 0x80) * 4096 + (c - 0x80) * 64 + (d - 0x80), 4)"
  using assms rune_lead_size [OF assms(1)] by (simp add: DecodeRune_def at_Cons unat_small cont_byte_def)

lemma split_3: "\<exists>a b c. r = a * 4096 + b * 64 + c \<and> b < 64 \<and> c < (64 :: nat)"
proof (intro exI conjI)
  show "r = r div 64 div 64 * 4096 + r div 64 mod 64 * 64 + r mod 64"
    using div_mult_mod_eq [of r 64] div_mult_mod_eq [of "r div 64" 64] by linarith
qed simp_all

lemma split_4: "\<exists>a b c d. r = a * 262144 + b * 4096 + c * 64 + d \<and> b < 64 \<and> c < 64 \<and> d < (64 :: nat)"
proof -
  obtain a b c where 1: "r = a * 4096 + b * 64 + c" "b < 64" "c < 64" using split_3 by blast
  have "a = a div 64 * 64 + a mod 64" by simp
  then have "r = a div 64 * 262144 + a mod 64 * 4096 + b * 64 + c" using 1(1) by linarith
  then show ?thesis using 1(2,3) by (metis mod_less_divisor zero_less_numeral)
qed

lemma mod_split: "c < m \<Longrightarrow> (x * m + c) mod m = (c :: nat)"
  by (simp only: mod_mult_self3 mod_less)

lemma EncodeRune_3:
  assumes "r = a * 4096 + b * 64 + c" "b < 64" "c < 64" "0x800 \<le> r" "r < 0x10000" "scalar r"
  shows "EncodeRune r = [word_of_nat (0xE0 + a), word_of_nat (0x80 + b), word_of_nat (0x80 + c)]"
proof -
  have "r div 64 = a * 64 + b" "r div 4096 = a" using assms(1-3) by auto
  moreover have "r = (a * 64 + b) * 64 + c" using assms(1) by simp
  then have "r mod 64 = c" by (simp only: mod_split [OF assms(3)])
  moreover have "(a * 64 + b) mod 64 = b" using assms(2) by simp
  ultimately show ?thesis using assms(4-6) by (simp add: EncodeRune_def)
qed

lemma EncodeRune_4:
  assumes "r = a * 262144 + b * 4096 + c * 64 + d" "b < 64" "c < 64" "d < 64" "0x10000 \<le> r" "scalar r"
  shows "EncodeRune r = [word_of_nat (0xF0 + a), word_of_nat (0x80 + b), word_of_nat (0x80 + c), word_of_nat (0x80 + d)]"
proof -
  have "r div 64 = a * 4096 + b * 64 + c" "r div 4096 = a * 64 + b" "r div 262144 = a" using assms(1-4) by auto
  moreover have "r = (a * 4096 + b * 64 + c) * 64 + d" using assms(1) by simp
  then have "r mod 64 = d" by (simp only: mod_split [OF assms(4)])
  moreover have "a * 4096 + b * 64 + c = (a * 64 + b) * 64 + c" by simp
  then have "(a * 4096 + b * 64 + c) mod 64 = c" by (simp only: mod_split [OF assms(3)])
  moreover have "(a * 64 + b) mod 64 = b" using assms(2) by simp
  ultimately show ?thesis using assms(5,6) by (simp add: EncodeRune_def)
qed

lemma DecodeRune_Encode:
  assumes "scalar r" shows "DecodeRune (EncodeRune r @ rest) = (r, length (EncodeRune r))"
proof -
  consider "r < 0x80" | "0x80 \<le> r" "r < 0x800" | "0x800 \<le> r" "r < 0x10000" | "0x10000 \<le> r" "r \<le> 0x10FFFF"
    using assms unfolding scalar_def by linarith
  then show ?thesis
  proof cases
    case 1
    then show ?thesis using assms by (simp add: EncodeRune_def DecodeRune_def at_Cons unat_small)
  next
    case 2
    obtain a b where ab: "r = a * 64 + b" "b < 64" by (metis div_mult_mod_eq mod_less_divisor zero_less_numeral)
    have a: "2 \<le> a" "a \<le> 0x1F" using 2 ab by auto
    have l: "rune_lead (0xC0 + a) = Some (2, 0x80, 0xBF)" using a by (simp add: rune_lead_def)
    have "EncodeRune r = [word_of_nat (0xC0 + a), word_of_nat (0x80 + b)]"
      using 2 assms ab by (simp add: EncodeRune_def)
    then show ?thesis using DecodeRune_2 [OF l, of "0x80 + b" rest] a ab by simp
  next
    case 3
    obtain a b c where abc: "r = a * 4096 + b * 64 + c" "b < 64" "c < 64" using split_3 by blast
    have a: "a \<le> 0xF" "a = 0 \<Longrightarrow> 0x20 \<le> b" "a = 0xD \<Longrightarrow> b \<le> 0x1F" using 3 abc assms by (auto simp: scalar_def)
    obtain lo hi where l: "rune_lead (0xE0 + a) = Some (3, lo, hi)" "lo \<le> 0x80 + b" "0x80 + b \<le> hi"
      using a abc(2) by (cases "a = 0"; cases "a = 0xD") (simp_all add: rune_lead_def)
    then show ?thesis
      using DecodeRune_3 [OF l(1) _ _ l(2,3), of "0x80 + c" rest] a(1) abc EncodeRune_3 [OF abc 3 assms] by (simp add: cont_byte_def)
  next
    case 4
    obtain a b c d where abcd: "r = a * 262144 + b * 4096 + c * 64 + d" "b < 64" "c < 64" "d < 64" using split_4 by blast
    have a: "a \<le> 4" "a = 0 \<Longrightarrow> 0x10 \<le> b" "a = 4 \<Longrightarrow> b \<le> 0xF" using 4 abcd by auto
    obtain lo hi where l: "rune_lead (0xF0 + a) = Some (4, lo, hi)" "lo \<le> 0x80 + b" "0x80 + b \<le> hi"
      using a abcd(2) by (cases "a = 0"; cases "a = 4") (simp_all add: rune_lead_def)
    then show ?thesis
      using DecodeRune_4 [OF l(1) _ _ l(2,3), of "0x80 + c" "0x80 + d" rest] a(1) abcd EncodeRune_4 [OF abcd 4(1) assms]
      by (simp add: cont_byte_def)
  qed
qed

lemma EncodeRune_nonempty [simp]: "EncodeRune r \<noteq> []"
  by (simp add: EncodeRune_def)

lemma runes_Nil [simp]: "runes [] = []"
  by (simp add: runes_def rune_spans.simps)

lemma runes_Encode: "scalar r \<Longrightarrow> runes (EncodeRune r @ rest) = r # runes rest"
  by (simp add: runes_def rune_spans.simps [of "EncodeRune r @ rest"] DecodeRune_Encode)

lemma runes_string_of_runes: "list_all scalar rs \<Longrightarrow> runes (string_of_runes rs) = rs"
  by (induction rs) (simp_all add: string_of_runes_def runes_Encode)

text \<open>Whatever the bytes, the runes read from them are scalar values, so they can be written again.\<close>

lemma scalar_3:
  assumes "rune_lead a = Some (3, lo, hi)" "lo \<le> b" "b \<le> hi" "cont_byte c"
  shows "scalar ((a - 0xE0) * 4096 + (b - 0x80) * 64 + (c - 0x80))"
proof -
  have b: "0x80 \<le> b" "b - 0x80 < 64" using assms(2,3) rune_lead_size [OF assms(1)] by auto
  have c: "c - 0x80 < 64" using assms(4) by (auto simp: cont_byte_def)
  have "a = 0xED \<and> b \<le> 0x9F \<or> a \<noteq> 0xED \<and> a \<le> 0xEF \<and> 0xE0 \<le> a"
    using assms(1,3) by (auto simp: rune_lead_def split: if_splits)
  then show ?thesis
  proof (elim disjE conjE)
    assume "a \<noteq> 0xED" "a \<le> 0xEF" "0xE0 \<le> a"
    then have "a - 0xE0 \<le> 12 \<or> 14 \<le> a - 0xE0 \<and> a - 0xE0 \<le> 15" by linarith
    then show ?thesis using b c unfolding scalar_def by linarith
  qed (use b c in \<open>simp add: scalar_def\<close>)
qed

lemma scalar_4:
  assumes "rune_lead a = Some (4, lo, hi)" "lo \<le> b" "b \<le> hi" "cont_byte c" "cont_byte d"
  shows "scalar ((a - 0xF0) * 262144 + (b - 0x80) * 4096 + (c - 0x80) * 64 + (d - 0x80))"
proof -
  have cd: "c - 0x80 < 64" "d - 0x80 < 64" using assms(4,5) by (auto simp: cont_byte_def)
  have b: "b - 0x80 < 64" using assms(2,3) rune_lead_size [OF assms(1)] by auto
  have "a = 0xF0 \<and> 0x90 \<le> b \<or> a = 0xF4 \<and> b \<le> 0x8F \<or> 0xF1 \<le> a \<and> a \<le> 0xF3"
    using assms(1-3) by (auto simp: rune_lead_def split: if_splits)
  then have "a = 0xF0 \<and> 16 \<le> b - 0x80 \<or> a = 0xF4 \<and> b - 0x80 \<le> 15 \<or> a - 0xF0 \<in> {1, 2, 3}" by auto
  then show ?thesis using b cd unfolding scalar_def by auto
qed

lemma DecodeRune_scalar: "scalar (fst (DecodeRune p))"
proof (cases "rune_lead (at p 0)")
  case None
  then show ?thesis by (simp add: DecodeRune_def RuneError_def) (simp add: scalar_def)
next
  case (Some x)
  then obtain n lo hi where x: "rune_lead (at p 0) = Some (n, lo, hi)" by (cases x) auto
  have e: "scalar RuneError" by (simp add: scalar_def RuneError_def)
  have n: "n = 2 \<or> n = 3 \<or> n = 4" using rune_lead_size [OF x] by auto
  have 2: "scalar ((at p 0 - 0xC0) * 64 + (at p 1 - 0x80))" if "n = 2" "at p 1 \<le> hi"
    using that x rune_lead_size [OF x] by (auto simp: scalar_def rune_lead_def split: if_splits)
  show ?thesis
    using x e n 2 scalar_3 [of "at p 0" lo hi "at p 1" "at p 2"] scalar_4 [of "at p 0" lo hi "at p 1" "at p 2" "at p 3"]
    by (auto simp: DecodeRune_def scalar_def [of "at p 0"])
qed

lemma runes_scalar: "list_all scalar (runes p)"
proof (induction p rule: rune_spans.induct)
  case (1 p)
  then show ?case using DecodeRune_scalar [of p]
    by (cases "DecodeRune p") (auto simp: runes_def rune_spans.simps [of p])
qed

section \<open>Fields\<close>

text \<open>\<^verbatim>\<open>unicode.IsSpace\<close>.\<close>

definition IsSpace :: "nat \<Rightarrow> bool" where
  "IsSpace r \<longleftrightarrow> r \<in> {9, 10, 11, 12, 13, 32, 0x85, 0xA0, 0x1680, 0x2028, 0x2029, 0x202F, 0x205F, 0x3000} \<or>
     0x2000 \<le> r \<and> r \<le> 0x200A"

text \<open>The loop of \<^verbatim>\<open>strings.FieldsFunc\<close>: the field being read, if any, and the fields still to come.\<close>

fun fields_loop :: "(nat \<times> bytes) list \<Rightarrow> bytes option \<Rightarrow> bytes list" where
  "fields_loop [] None = []"
| "fields_loop [] (Some w) = [w]"
| "fields_loop ((r, b) # xs) cur =
     (if IsSpace r then (case cur of None \<Rightarrow> fields_loop xs None | Some w \<Rightarrow> w # fields_loop xs None)
      else fields_loop xs (Some (case cur of None \<Rightarrow> b | Some w \<Rightarrow> w @ b)))"

definition Fields :: "bytes \<Rightarrow> bytes list" where
  "Fields s = fields_loop (rune_spans s) None"

text \<open>Reference count: a field starts at a rune that is not a space and follows a space or nothing.\<close>

fun field_starts :: "bool \<Rightarrow> nat list \<Rightarrow> nat" where
  "field_starts after [] = 0"
| "field_starts after (r # rs) = (if after \<and> \<not> IsSpace r then 1 else 0) + field_starts (IsSpace r) rs"

lemma length_fields_loop:
  "length (fields_loop xs cur) = (if cur = None then 0 else 1) + field_starts (cur = None) (map fst xs)"
  by (induction xs cur rule: fields_loop.induct) (auto split: option.splits)

lemma length_Fields: "length (Fields s) = field_starts True (runes s)"
  by (simp add: Fields_def length_fields_loop runes_def)

end
