(* ===== verification/Demo.thy ===== *)
theory Demo imports Session Go_Text begin

text \<open>
  The agents and clients of \<^verbatim>\<open>cmd/aire-demo\<close> and \<^verbatim>\<open>cmd/aire-peers\<close>: the token stream and the
  client that reads a part of it, the two workers, and the coordinator that asks both
  workers in parallel and forwards their replies as they come.  Log lines and delays are
  left out.
\<close>

section \<open>The token stream of aire-demo\<close>

definition nTokens :: int where
  "nTokens = 5"

definition cancelAfter :: nat where
  "cancelAfter = 3"

definition stream_frame :: "bytes \<Rightarrow> Frame" where
  "stream_frame payload = \<lparr>f_Type = FrameStream, f_Flags = 0, f_OpID = 0, f_Payload = payload\<rparr>"

definition token :: "int \<Rightarrow> bytes" where
  "token i = bytes_of_string (''token-'' @ Itoa i)"

text \<open>
  The loop \<^verbatim>\<open>for i := 1; i <= n; i++\<close> on 64-bit integers.  For the largest \<^verbatim>\<open>n\<close> the condition
  never fails, so the loop is a partial function and \<open>None\<close> stands for a run without end.
\<close>

partial_function (option) stream_loop :: "u64 \<Rightarrow> u64 \<Rightarrow> Operation \<Rightarrow> (unit outcome \<times> Operation) option" where
  "stream_loop n i op =
     (if sint i \<le> sint n then
        (case Operation_Send op (stream_frame (token (sint i))) of
           (res, op) \<Rightarrow>
             (case res of
                Ok _ \<Rightarrow> stream_loop n (i + 1) op
              | Err e \<Rightarrow> Some (Err e, op)
              | Panic \<Rightarrow> Some (Panic, op)))
      else Some (Ok (), op))"

definition streamAgent :: "Invoke \<Rightarrow> (unit outcome \<times> Operation) option" where
  "streamAgent iv =
     (case on_err (Wrap ''parse args'') (Atoi (string_of_bytes (inv_Args iv))) of
        Err e \<Rightarrow> Some (Err e, inv_Op iv)
      | Panic \<Rightarrow> Some (Panic, inv_Op iv)
      | Ok n \<Rightarrow> stream_loop (word_of_int n) 1 (inv_Op iv))"

text \<open>The client's loop: receive a number of frames, give up on the first error.\<close>

fun recv_loop :: "nat \<Rightarrow> Operation \<Rightarrow> bytes list outcome \<times> Operation" where
  "recv_loop 0 op = (Ok [], op)"
| "recv_loop (Suc k) op =
     (case Operation_Recv op of
        (Err e, op) \<Rightarrow> (Err e, op)
      | (Panic, op) \<Rightarrow> (Panic, op)
      | (Ok f, op) \<Rightarrow>
          (case recv_loop k op of
             (Ok ps, op) \<Rightarrow> (Ok (f_Payload f # ps), op)
           | (Err e, op) \<Rightarrow> (Err e, op)
           | (Panic, op) \<Rightarrow> (Panic, op)))"

text \<open>
  The program: a node with the stream agent, a client that dials it, shakes hands, invokes
  the agent, reads some tokens and tears the connection down.  A call of \<^verbatim>\<open>log.Fatalf\<close> ends it
  with that error.  The \<^verbatim>\<open>Listen\<close> of a node that was just made gets past its checks.
\<close>

definition zero_config :: NodeConfig where
  "zero_config = \<lparr>nc_Signer = None, nc_Verifier = None, nc_Capabilities = []\<rparr>"

definition demo_client :: "env \<Rightarrow> Conn \<Rightarrow> (bytes list \<times> Conn) outcome" where
  "demo_client env conn =
     (case Conn_Handshake env conn zero_config of
        (Err e, _) \<Rightarrow> Err (Wrap ''client Handshake'' e)
      | (Panic, _) \<Rightarrow> Panic
      | (Ok state, conn, _) \<Rightarrow>
          (case Conn_Invoke conn ''stream'' ''tokens'' (bytes_of_string (Itoa nTokens)) of
             (Err e, _) \<Rightarrow> Err (Wrap ''Invoke'' e)
           | (Panic, _) \<Rightarrow> Panic
           | (Ok op, conn) \<Rightarrow>
               (case recv_loop cancelAfter (Operation_Close op) of
                  (res, op) \<Rightarrow> obind (on_err (Wrap ''Recv token'') res) (\<lambda>tokens. Ok (tokens, Conn_Close conn)))))"

definition demo_main ::
  "(string \<Rightarrow> 'tls \<Rightarrow> QListener outcome) \<Rightarrow> (string \<Rightarrow> 'tls \<Rightarrow> QConn outcome) \<Rightarrow> 'tls \<Rightarrow> env \<Rightarrow> agent \<Rightarrow>
   (Node \<times> bytes list \<times> Conn) outcome" where
  "demo_main listenAddr dialAddr tls env agent =
     (case RegisterAgent (NewNode zero_config) ''stream'' (Some agent) of
        (Some e, _) \<Rightarrow> Err (Wrap ''RegisterAgent'' e)
      | (None, server) \<Rightarrow>
          obind (on_err (Wrap ''Listen'') (Listen listenAddr ''127.0.0.1:0'' tls)) (\<lambda>listener.
          obind (on_err (Wrap ''Dial'') (Dial dialAddr (Node_Addr (Some listener)) tls)) (\<lambda>conn.
          obind (demo_client env conn) (\<lambda>(tokens, conn). Ok (server, tokens, conn)))))"

section \<open>What the token stream writes\<close>

definition op_frame :: "u64 \<Rightarrow> bytes \<Rightarrow> Frame" where
  "op_frame opID payload = (stream_frame payload)\<lparr>f_OpID := opID\<rparr>"

definition frame_bytes :: "u64 \<Rightarrow> bytes \<Rightarrow> bytes" where
  "frame_bytes opID payload = (case Frame_Encode (op_frame opID payload) of Ok bs \<Rightarrow> bs | _ \<Rightarrow> [])"

lemma frame_bytes_Ok:
  assumes "opID \<le> MaxVarint" "length payload \<le> unat MaxFrameSize"
  shows "Frame_Encode (op_frame opID payload) = Ok (frame_bytes opID payload)"
proof -
  have "Frame_wf (op_frame opID payload)" using assms by (simp add: Frame_wf_def op_frame_def stream_frame_def)
  then show ?thesis using frame.enc_total by (fastforce simp: frame_bytes_def)
qed

lemma Send_stream:
  assumes "op_OpID op \<le> MaxVarint" "length payload \<le> unat MaxFrameSize"
  shows "Operation_Send op (stream_frame payload) =
    (case s_write (op_stream op) (frame_bytes (op_OpID op) payload) of
       Some e \<Rightarrow> (Err (Wrap ''aire: SendFrame'' e), op)
     | None \<Rightarrow> (Ok (), op\<lparr>op_stream := (op_stream op)\<lparr>s_sent := s_sent (op_stream op) @ [frame_bytes (op_OpID op) payload]\<rparr>\<rparr>))"
  using frame_bytes_Ok [OF assms]
  by (simp add: Operation_Send_def Stream_SendFrame_def op_frame_def Let_def split: option.split)

lemma length_decimal: "n < 10 ^ k \<Longrightarrow> length (decimal n) \<le> Suc k"
  using decimal.length_digits [of n k] by (simp add: decimal_def)

lemma length_token: "0 \<le> i \<Longrightarrow> i < 2 ^ 63 \<Longrightarrow> length (token i) \<le> 30"
  using length_decimal [of "nat i" 19] by (simp add: token_def Itoa_def nat_less_iff)

lemma token_fits: "0 \<le> i \<Longrightarrow> i < 2 ^ 63 \<Longrightarrow> length (token i) \<le> unat MaxFrameSize"
  using length_token [of i] by (simp add: MaxFrameSize_def)

lemma sint_succ:
  assumes "sint i < 2 ^ 63 - 1" shows "sint (i + 1 :: u64) = sint i + 1"
proof -
  have "sint i + 1 < 2 ^ 63" using assms by simp
  moreover have "- (2 ^ 63) \<le> sint i" using sint_ge [of i] by simp
  ultimately show ?thesis
    by (simp add: signed_take_bit_int_eq_self sint_word_ariths(1))
qed

text \<open>The frames of the tokens from \<open>i\<close> to \<open>n\<close>, and the prefix of them that a stream takes.\<close>

definition token_frames :: "u64 \<Rightarrow> int \<Rightarrow> int \<Rightarrow> bytes list" where
  "token_frames opID i n = map (\<lambda>j. frame_bytes opID (token j)) [i..n]"

definition sends :: "Operation \<Rightarrow> bytes list \<Rightarrow> Operation" where
  "sends op bss = op\<lparr>op_stream := (op_stream op)\<lparr>s_sent := s_sent (op_stream op) @ bss\<rparr>\<rparr>"

lemma sends_simps [simp]:
  "op_OpID (sends op bss) = op_OpID op" "op_conn (sends op bss) = op_conn op"
  "s_write (op_stream (sends op bss)) = s_write (op_stream op)" "s_in (op_stream (sends op bss)) = s_in (op_stream op)"
  "s_sent (op_stream (sends op bss)) = s_sent (op_stream op) @ bss"
  "sends (sends op bss) css = sends op (bss @ css)" "sends op [] = op"
  by (simp_all add: sends_def)

lemma Send_stream_cases:
  assumes "op_OpID op \<le> MaxVarint" "length payload \<le> unat MaxFrameSize"
  shows "Operation_Send op (stream_frame payload) =
    (case s_write (op_stream op) (frame_bytes (op_OpID op) payload) of
       Some e \<Rightarrow> (Err (Wrap ''aire: SendFrame'' e), op)
     | None \<Rightarrow> (Ok (), sends op [frame_bytes (op_OpID op) payload]))"
  unfolding sends_def by (rule Send_stream [OF assms])

definition accepted :: "Operation \<Rightarrow> bytes list \<Rightarrow> bytes list" where
  "accepted op bss = takeWhile (\<lambda>bs. s_write (op_stream op) bs = None) bss"

definition refusal :: "Operation \<Rightarrow> bytes list \<Rightarrow> unit outcome" where
  "refusal op bss =
     (case dropWhile (\<lambda>bs. s_write (op_stream op) bs = None) bss of
        [] \<Rightarrow> Ok ()
      | bs # _ \<Rightarrow> Err (Wrap ''aire: SendFrame'' (the (s_write (op_stream op) bs))))"

lemma refusal_Nil [simp]: "refusal op [] = Ok ()" "accepted op [] = []"
  by (simp_all add: refusal_def accepted_def)

lemma refusal_Cons [simp]:
  "s_write (op_stream op) b = None \<Longrightarrow> refusal op (b # bss) = refusal op bss"
  "s_write (op_stream op) b = None \<Longrightarrow> accepted op (b # bss) = b # accepted op bss"
  "s_write (op_stream op) b = Some e \<Longrightarrow> refusal op (b # bss) = Err (Wrap ''aire: SendFrame'' e)"
  "s_write (op_stream op) b = Some e \<Longrightarrow> accepted op (b # bss) = []"
  by (simp_all add: refusal_def accepted_def)

lemma refusal_sends [simp]: "refusal (sends op bss) css = refusal op css" "accepted (sends op bss) css = accepted op css"
  by (simp_all add: refusal_def accepted_def cong: list.case_cong)

lemma stream_loop_sends:
  assumes "op_OpID op \<le> MaxVarint" "1 \<le> sint i" "sint n < 2 ^ 63 - 1"
  shows "stream_loop n i op =
    Some (refusal op (token_frames (op_OpID op) (sint i) (sint n)),
          sends op (accepted op (token_frames (op_OpID op) (sint i) (sint n))))"
  using assms
proof (induction "nat (sint n + 1 - sint i)" arbitrary: i op)
  case 0
  then show ?case by (simp add: stream_loop.simps token_frames_def)
next
  case (Suc k)
  let ?b = "frame_bytes (op_OpID op) (token (sint i))"
  have le: "sint i \<le> sint n" using Suc.hyps(2) by simp
  then have frames: "token_frames (op_OpID op) (sint i) (sint n) = ?b # token_frames (op_OpID op) (sint i + 1) (sint n)"
    by (simp add: token_frames_def upto_rec1)
  have fit: "length (token (sint i)) \<le> unat MaxFrameSize" using Suc.prems le by (intro token_fits) simp_all
  have send: "Operation_Send op (stream_frame (token (sint i))) =
    (case s_write (op_stream op) ?b of Some e \<Rightarrow> (Err (Wrap ''aire: SendFrame'' e), op) | None \<Rightarrow> (Ok (), sends op [?b]))"
    by (rule Send_stream_cases [OF Suc.prems(1) fit])
  show ?case
  proof (cases "s_write (op_stream op) ?b")
    case None
    have i: "sint (i + 1) = sint i + 1" using Suc.prems(2,3) le by (intro sint_succ) simp
    show ?thesis
      using Suc.hyps(1) [of "i + 1" "sends op [?b]"] Suc.hyps(2) Suc.prems None send le
      by (subst stream_loop.simps) (simp add: i frames)
  next
    case (Some e)
    then show ?thesis using send le by (subst stream_loop.simps) (simp add: frames)
  qed
qed

lemma streamAgent_sends:
  assumes "Atoi (string_of_bytes (inv_Args iv)) = Ok n" "n < 2 ^ 63 - 1" "op_OpID (inv_Op iv) \<le> MaxVarint"
  shows "streamAgent iv =
    Some (refusal (inv_Op iv) (token_frames (op_OpID (inv_Op iv)) 1 n),
          sends (inv_Op iv) (accepted (inv_Op iv) (token_frames (op_OpID (inv_Op iv)) 1 n)))"
proof -
  have "- (2 ^ 63) \<le> n"
    using assms(1) by (auto simp: Atoi_def Let_def split: if_splits)
  then have n: "sint (word_of_int n :: u64) = n"
    using assms(2) by (simp add: signed_of_int signed_take_bit_int_eq_self)
  show ?thesis
    using stream_loop_sends [of "inv_Op iv" 1 "word_of_int n"] assms n by (simp add: streamAgent_def)
qed

lemma recv_loop_frames:
  assumes "op_OpID op \<le> MaxVarint" "\<forall>p \<in> set ps. length p \<le> unat MaxFrameSize"
    and "pending (s_in (op_stream op)) = concat (map (frame_bytes (op_OpID op)) ps) @ rest" "k \<le> length ps"
  shows "fst (recv_loop k op) = Ok (take k ps)"
  using assms
proof (induction k arbitrary: op ps)
  case (Suc k)
  then obtain p qs where ps: "ps = p # qs" by (cases ps) auto
  let ?b = "frame_bytes (op_OpID op) p" and ?f = "op_frame (op_OpID op) p"
  have len: "length p \<le> unat MaxFrameSize" using Suc.prems(2) ps by simp
  have "Frame_wf ?f" using Suc.prems(1) len by (simp add: Frame_wf_def op_frame_def stream_frame_def)
  then have d: "Decode (pending (s_in (op_stream op))) = Ok (?f, length ?b)"
    using frame.dec_enc_append [OF _ frame_bytes_Ok [OF Suc.prems(1) len]] Suc.prems(3) ps by simp
  obtain op' where r: "Operation_Recv op = (Ok ?f, op')"
      "pending (s_in (op_stream op')) = concat (map (frame_bytes (op_OpID op)) qs) @ rest"
    using Recv_delivered [OF d] Suc.prems(3) ps by (cases "Operation_Recv op") (auto simp: op_frame_def)
  have id: "op_OpID op' = op_OpID op" using Recv_conn(2) [of op] r(1) by simp
  have "fst (recv_loop k op') = Ok (take k qs)"
    by (rule Suc.IH) (use Suc.prems ps r(2) id in simp_all)
  then obtain op'' where "recv_loop k op' = (Ok (take k qs), op'')" by (cases "recv_loop k op'") auto
  then show ?case using r(1) ps by (simp add: op_frame_def stream_frame_def)
qed simp

lemma refusal_Ok_iff: "refusal op bss = Ok () \<longleftrightarrow> (\<forall>bs \<in> set bss. s_write (op_stream op) bs = None)"
proof (induction bss)
  case (Cons b bss)
  then show ?case by (cases "s_write (op_stream op) b") simp_all
qed simp

text \<open>
  C35 (the stream agent ends).  For every count below the largest 64-bit integer the agent
  returns; it has written the tokens from 1 on, in order, up to the first one that the
  stream refuses, and it reports success exactly when none was refused.  A count that does
  not parse is reported and nothing is written.
\<close>

theorem stream_agent_complete:
  assumes "op_OpID (inv_Op iv) \<le> MaxVarint"
  shows "case Atoi (string_of_bytes (inv_Args iv)) of
     Ok n \<Rightarrow> n < 2 ^ 63 - 1 \<longrightarrow>
       (\<exists>res op'. streamAgent iv = Some (res, op') \<and>
          s_sent (op_stream op') = s_sent (op_stream (inv_Op iv)) @
            takeWhile (\<lambda>bs. s_write (op_stream (inv_Op iv)) bs = None)
              (map (\<lambda>i. frame_bytes (op_OpID (inv_Op iv)) (token i)) [1..n]) \<and>
          (res = Ok () \<longleftrightarrow> (\<forall>i \<in> {1..n}. s_write (op_stream (inv_Op iv)) (frame_bytes (op_OpID (inv_Op iv)) (token i)) = None)))
   | Err e \<Rightarrow> streamAgent iv = Some (Err (Wrap ''parse args'' e), inv_Op iv)
   | Panic \<Rightarrow> False"
proof (cases "Atoi (string_of_bytes (inv_Args iv))")
  case (Ok n)
  then show ?thesis using streamAgent_sends [OF Ok _ assms]
    by (auto simp: accepted_def token_frames_def refusal_Ok_iff)
next
  case (Err e)
  then show ?thesis by (simp add: streamAgent_def)
next
  case Panic
  then show ?thesis by (simp add: Atoi_def Let_def split: if_splits)
qed

lemma demo_tokens:
  assumes "inv_Args iv = bytes_of_string (Itoa nTokens)" "op_OpID (inv_Op iv) \<le> MaxVarint"
    and "\<forall>bs. s_write (op_stream (inv_Op iv)) bs = None" "s_sent (op_stream (inv_Op iv)) = []"
    and "streamAgent iv = Some (res, op')" "op_OpID client = op_OpID (inv_Op iv)"
    and "concat (rd_chunks (s_in (op_stream client))) = concat (s_sent (op_stream op')) @ rest"
  shows "res = Ok () \<and> fst (recv_loop cancelAfter client) = Ok (map token [1, 2, 3])"
proof -
  have a: "Atoi (string_of_bytes (inv_Args iv)) = Ok nTokens"
    using assms(1) Atoi_Itoa [of nTokens] by (simp add: nTokens_def)
  have five: "[1..nTokens] = [1, 2, 3, 4, 5]" by (simp add: nTokens_def upto_rec1)
  have "accepted (inv_Op iv) bss = bss" for bss using assms(3) by (simp add: accepted_def takeWhile_eq_all_conv)
  then have run: "res = Ok ()" "op' = sends (inv_Op iv) (map (\<lambda>i. frame_bytes (op_OpID (inv_Op iv)) (token i)) [1..nTokens])"
    using streamAgent_sends [OF a _ assms(2)] assms(3,5)
    by (auto simp: token_frames_def refusal_Ok_iff nTokens_def)
  have "pending (s_in (op_stream client)) = concat (map (frame_bytes (op_OpID client)) (map token [1..nTokens])) @ rest"
    using assms(4,6,7) run(2) by (simp add: pending_def comp_def)
  moreover have "length (token i) \<le> 30" if "i \<in> {1..nTokens}" for i
    using that by (intro length_token) (auto simp: nTokens_def)
  then have "\<forall>p \<in> set (map token [1..nTokens]). length p \<le> unat MaxFrameSize" by fastforce
  ultimately have "fst (recv_loop cancelAfter client) = Ok (take cancelAfter (map token [1..nTokens]))"
    using assms(2,6) by (intro recv_loop_frames) (simp_all add: nTokens_def cancelAfter_def)
  then show ?thesis using run(1) by (simp add: five cancelAfter_def)
qed

lemma Operation_Close_simps [simp]:
  "op_OpID (Operation_Close op) = op_OpID op" "s_in (op_stream (Operation_Close op)) = s_in (op_stream op)"
  by (simp_all add: Operation_Close_def Stream_Close_def)

lemma demo_client_reads:
  assumes "fresh conn" "c_isClient conn" "q_open (c_qc conn) (q_opened (c_qc conn)) = Ok ctrl"
    and "fst (runHandshake env ctrl zero_config) = Ok st" "q_open (c_qc conn) (Suc (q_opened (c_qc conn))) = Ok s"
    and "\<forall>bs. s_write s bs = None" "s_ID s \<le> MaxVarint"
    and "\<And>client. op_OpID client = s_ID s \<Longrightarrow> s_in (op_stream client) = s_in s \<Longrightarrow> fst (recv_loop cancelAfter client) = Ok ps"
  shows "\<exists>conn'. demo_client env conn = Ok (ps, conn') \<and> q_closed (c_qc conn')"
proof -
  have "length (bytes_of_string (Itoa nTokens)) \<le> 2"
    using length_decimal [of 5 1] by (simp add: Itoa_def nTokens_def)
  then have "length ''stream'' + length ''tokens'' + length (bytes_of_string (Itoa nTokens)) + 16 \<le> unat MaxFrameSize" by simp
  from client_invokes [OF assms(1-7) this] obtain c' v op c'' where
      op: "Conn_Handshake env conn zero_config = (Ok st, c', v)"
        "Conn_Invoke c' ''stream'' ''tokens'' (bytes_of_string (Itoa nTokens)) = (Ok op, c'')"
        "op_OpID op = s_ID s" "s_in (op_stream op) = s_in s" by blast
  have "fst (recv_loop cancelAfter (Operation_Close op)) = Ok ps" by (rule assms(8)) (simp_all add: op)
  then obtain op' where "recv_loop cancelAfter (Operation_Close op) = (Ok ps, op')" by (metis prod.collapse)
  then show ?thesis using op(1,2) by (simp add: demo_client_def)
qed

text \<open>
  The demo program.  When listening and dialling succeed, the handshake completes and
  what the stream agent writes for the client's invocation arrives at the client, in any
  chunks, the program runs to its end: it has registered the agent, read the first three
  tokens in order and closed the connection.
\<close>

theorem demo_main_output:
  assumes "listenAddr ''127.0.0.1:0'' tls = Ok ql" "dialAddr (ql_addr ql) tls = Ok qc"
    and "q_open qc (q_opened qc) = Ok ctrl" "fst (runHandshake env ctrl zero_config) = Ok st"
    and "q_open qc (Suc (q_opened qc)) = Ok s" "\<forall>bs. s_write s bs = None" "s_ID s \<le> MaxVarint"
    and "inv_Args iv = bytes_of_string (Itoa nTokens)" "op_OpID (inv_Op iv) = s_ID s"
    and "\<forall>bs. s_write (op_stream (inv_Op iv)) bs = None" "s_sent (op_stream (inv_Op iv)) = []"
    and "streamAgent iv = Some (res, op')"
    and "concat (rd_chunks (s_in s)) = concat (s_sent (op_stream op')) @ rest"
  shows "\<exists>server conn. demo_main listenAddr dialAddr tls env agent = Ok (server, map token [1, 2, 3], conn) \<and>
    n_agents server = [''stream'' \<mapsto> agent] \<and> q_closed (c_qc conn)"
proof -
  let ?conn = "\<lparr>c_qc = qc, c_isClient = True, c_ctrl = None, c_state = None\<rparr>"
  have "fst (recv_loop cancelAfter client) = Ok (map token [1, 2, 3])"
    if "op_OpID client = s_ID s" "s_in (op_stream client) = s_in s" for client
    using demo_tokens [OF assms(8) _ assms(10,11,12), of client rest] assms(7,9,13) that by simp
  then obtain conn where "demo_client env ?conn = Ok (map token [1, 2, 3], conn)" "q_closed (c_qc conn)"
    using demo_client_reads [of ?conn ctrl env st s "map token [1, 2, 3]"] assms(3-7) by (auto simp: fresh_def)
  moreover have "Listen listenAddr ''127.0.0.1:0'' tls = Ok \<lparr>l_ql = ql\<rparr>" using assms(1) by (simp add: Listen_def)
  moreover have "Dial dialAddr (ql_addr ql) tls = Ok ?conn" using assms(2) by (simp add: Dial_Ok_iff)
  ultimately show ?thesis
    by (simp add: demo_main_def RegisterAgent_def NewNode_def Node_Addr_def Listener_Addr_def)
qed

definition demo_op :: "bytes \<Rightarrow> Operation" where
  "demo_op bs = \<lparr>op_OpID = 4, op_stream = (sample_stream bs)\<lparr>s_ID := 4\<rparr>, op_conn = None\<rparr>"

definition demo_invoke :: "bytes \<Rightarrow> Invoke" where
  "demo_invoke args = \<lparr>inv_AgentID = ''stream'', inv_Operation = ''tokens'', inv_Args = args, inv_Op = demo_op [], inv_PeerNodeID = ''did:web:a''\<rparr>"

lemma demo_op_simps [simp]:
  "op_OpID (demo_op bs) = 4" "s_write (op_stream (demo_op bs)) b = None" "s_sent (op_stream (demo_op bs)) = []"
  "rd_chunks (s_in (op_stream (demo_op bs))) = [bs]"
  "inv_Op (demo_invoke args) = demo_op []" "inv_Args (demo_invoke args) = args"
  by (simp_all add: demo_op_def demo_invoke_def sample_stream_def)

theorem stream_agent_complete_witness:
  "\<exists>res op'. streamAgent (demo_invoke (bytes_of_string (Itoa 2))) = Some (res, op') \<and>
     s_sent (op_stream op') = [frame_bytes 4 (token 1), frame_bytes 4 (token 2)] \<and> res = Ok ()"
proof -
  let ?iv = "demo_invoke (bytes_of_string (Itoa 2))"
  have a: "Atoi (string_of_bytes (inv_Args ?iv)) = Ok 2" using Atoi_Itoa [of 2] by simp
  have "[1..2 :: int] = [1, 2]" by (simp add: upto_rec1)
  then show ?thesis
    using stream_agent_complete [of ?iv] a by (simp add: MaxVarint_def)
qed

definition demo_env :: env where
  "demo_env = sample_env\<lparr>e_keygen := Ok (replicate 32 1)\<rparr>"

lemma demo_handshake: "\<exists>ctrl st. fst (runHandshake demo_env ctrl zero_config) = Ok st"
proof -
  let ?a = "replicate 32 1 :: bytes" and ?b = "replicate 32 2 :: bytes"
  obtain pA pB where p: "hello_payload sample_env (sample_cfg False ?a) = Ok pA" "length pA \<le> 500"
      "hello_payload sample_env (sample_cfg False ?b) = Ok pB" "length pB \<le> 500"
    using sample_payload [of ?a] sample_payload [of ?b] by (metis length_replicate)
  have hello: "hello_payload demo_env zero_config = Ok pA"
    using p(1) by (simp add: hello_payload_def demo_env_def zero_config_def sample_cfg_def ephemeralSigner_def
        NewEd25519DIDKeySigner_eq) (simp add: did_signer_def)
  obtain bs where d: "delivers (sample_stream bs) pB" by (rule sample_delivers [OF p(4)])
  have wf: "Frame_wf \<lparr>f_Type = FrameHello, f_Flags = 0, f_OpID = 0, f_Payload = pA\<rparr>" using p(2) by (simp add: Frame_wf_def)
  obtain ctrl1 where s: "Stream_SendFrame (sample_stream bs) \<lparr>f_Type = FrameHello, f_Flags = 0, f_OpID = 0, f_Payload = pA\<rparr> = (Ok (), ctrl1)"
    using SendFrame_Ok [OF _ wf, of "sample_stream bs"] by (auto simp: sample_stream_def)
  have n: "NegotiateCapabilities (nc_Capabilities zero_config) (nc_Capabilities (sample_cfg False ?b)) = Ok []"
    by (simp add: zero_config_def sample_cfg_def NegotiateCapabilities_def indexCapabilities_def)
  have g: "grants demo_env zero_config sample_env ?b (replicate 16 7)"
    using sample_grants [of False ?a ?b] by (simp add: grants_def demo_env_def zero_config_def sample_cfg_def verifier_of_def)
  have "hello_accepted demo_env (verifier_of zero_config) (nc_Capabilities zero_config)
      \<lparr>f_Type = FrameHello, f_Flags = 0, f_OpID = 0, f_Payload = pB\<rparr>
      \<lparr>hs_PeerNodeID = MakeDIDKey (e_public sample_env ?b), hs_NegotiatedMinor = 2, hs_ActiveCapabilities = []\<rparr>"
    by (rule honest_hello_accepted [OF sample_honest g n p(3)]) simp_all
  from runHandshake_accept [OF hello s delivers_frame [OF d] this] show ?thesis by blast
qed

theorem demo_main_output_witness:
  "\<exists>listenAddr dialAddr agent server conn.
     demo_main listenAddr dialAddr () demo_env agent = Ok (server, map token [1, 2, 3], conn)"
proof -
  let ?iv = "demo_invoke (bytes_of_string (Itoa nTokens))"
  obtain res op' where r: "streamAgent ?iv = Some (res, op')"
    using streamAgent_sends [of ?iv nTokens] Atoi_Itoa [of nTokens] by (auto simp: nTokens_def MaxVarint_def)
  obtain ctrl st where h: "fst (runHandshake demo_env ctrl zero_config) = Ok st" using demo_handshake by blast
  let ?s = "op_stream (demo_op (concat (s_sent (op_stream op'))))"
  let ?qc = "\<lparr>q_open = (\<lambda>i. if i = 0 then Ok ctrl else Ok ?s), q_accept = (\<lambda>_. Err EOF), q_opened = 0, q_accepted = 0, q_closed = False\<rparr>"
  let ?ql = "\<lparr>ql_accept = (\<lambda>_. Err EOF), ql_accepted = 0, ql_addr = ''127.0.0.1:9'', ql_closed = False\<rparr>"
  have "\<exists>server conn. demo_main (\<lambda>_ _. Ok ?ql) (\<lambda>_ _. Ok ?qc) () demo_env (\<lambda>iv. (None, inv_Op iv)) =
      Ok (server, map token [1, 2, 3], conn) \<and> n_agents server = [''stream'' \<mapsto> (\<lambda>iv. (None, inv_Op iv))] \<and> q_closed (c_qc conn)"
    by (rule demo_main_output [where ql = ?ql and qc = ?qc and ctrl = ctrl and st = st and s = ?s and iv = ?iv and rest = "[]",
          OF _ _ _ h _ _ _ _ _ _ _ r])
       (simp_all add: MaxVarint_def, simp_all add: demo_op_def)
  then show ?thesis by blast
qed

end
