(* ===== verification/Peers.thy ===== *)
theory Peers imports Demo "HOL-Library.Multiset" begin

text \<open>
  \<^verbatim>\<open>cmd/aire-peers\<close>: the two worker agents, and the coordinator, which asks both workers over
  one connection from two goroutines and forwards their replies to its caller in the order
  in which they arrive on a channel.
\<close>

section \<open>The workers\<close>

definition wordcountAgent :: "Invoke \<Rightarrow> unit outcome \<times> Operation" where
  "wordcountAgent iv =
     (let n = length (Fields (inv_Args iv)) in
      Operation_Send (inv_Op iv) (stream_frame (bytes_of_string (Itoa (int n)))))"

text \<open>For no runes \<^verbatim>\<open>j\<close> starts at -1 in the source and at 0 here; neither is above \<^verbatim>\<open>i\<close>.\<close>

definition reverseAgent :: "Invoke \<Rightarrow> unit outcome \<times> Operation" where
  "reverseAgent iv =
     (let r = runes (inv_Args iv);
          r = reverse_loop 0 (length r - 1) r
      in Operation_Send (inv_Op iv) (stream_frame (string_of_runes r)))"

lemma runes_reverse: "runes (string_of_runes (rev (runes p))) = rev (runes p)"
  using runes_scalar [of p] by (intro runes_string_of_runes) (simp add: list_all_iff)

lemma length_string_of_runes_rev: "length (string_of_runes (rev rs)) = length (string_of_runes rs)"
  by (induction rs) (simp_all add: string_of_runes_def)

text \<open>
  C34 (the workers).  The word counter answers with the number of maximal runs of runes that
  are not white space.  The reverser answers with a text whose runes are those of the
  argument in reverse order; on valid UTF-8 it is the reversed text itself, of the same
  length, so that reversing twice gives the argument back.
\<close>

theorem worker_replies:
  "wordcountAgent iv =
     Operation_Send (inv_Op iv) (stream_frame (bytes_of_string (Itoa (int (field_starts True (runes (inv_Args iv))))))) \<and>
   (\<exists>q. reverseAgent iv = Operation_Send (inv_Op iv) (stream_frame q) \<and> runes q = rev (runes (inv_Args iv)) \<and>
      (list_all scalar rs \<and> inv_Args iv = string_of_runes rs \<longrightarrow>
         q = string_of_runes (rev rs) \<and> length q = length (inv_Args iv) \<and>
         string_of_runes (rev (runes q)) = inv_Args iv))"
proof (intro conjI exI)
  show "wordcountAgent iv =
     Operation_Send (inv_Op iv) (stream_frame (bytes_of_string (Itoa (int (field_starts True (runes (inv_Args iv)))))))"
    by (simp add: wordcountAgent_def length_Fields)
  let ?q = "string_of_runes (rev (runes (inv_Args iv)))"
  show "reverseAgent iv = Operation_Send (inv_Op iv) (stream_frame ?q)"
    using reverse_loop_rev [of "runes (inv_Args iv)"] by (simp add: reverseAgent_def)
  show r: "runes ?q = rev (runes (inv_Args iv))" by (rule runes_reverse)
  show "list_all scalar rs \<and> inv_Args iv = string_of_runes rs \<longrightarrow>
      ?q = string_of_runes (rev rs) \<and> length ?q = length (inv_Args iv) \<and> string_of_runes (rev (runes ?q)) = inv_Args iv"
    unfolding r by (auto simp: runes_string_of_runes length_string_of_runes_rev)
qed

section \<open>The coordinator\<close>

text \<open>
  The state that the goroutines of one call of the coordinator share: the connection to the
  other node, the two workers' goroutines, the wait group, the channel with its buffer of
  two, and the loop that ranges over the channel.  The state starts when both goroutines
  and the one that closes the channel have been spawned.  \<open>k_got\<close> is a ghost: the replies in
  the order in which they were put on the channel.

  A worker's receive, its send on the channel and its \<^verbatim>\<open>Done\<close> are one step, at the time of the
  send: the receive touches nothing shared, and until the \<^verbatim>\<open>Done\<close> the others can only take the
  reply off the channel, which they can do after it as well.  The stream a worker receives
  from is a reader, which ends in a frame or an error; a peer that stays silent for ever is
  outside this model.
\<close>

datatype worker = W_start string | W_recv string Operation | W_done

datatype range_pc = M_loop | M_return "error option" | M_crash

record coord =
  k_conn :: Conn
  k_workers :: "worker list"
  k_wg :: int
  k_out :: "bytes list"
  k_closed :: bool
  k_pc :: range_pc
  k_op :: Operation
  k_got :: "(string \<times> bytes) list"

definition chunk :: "string \<times> bytes \<Rightarrow> bytes" where
  "chunk = (\<lambda>(agentID, payload). bytes_of_string (agentID @ ''='') @ payload)"

definition targets :: "string list" where
  "targets = [''wordcount'', ''reverse'']"

definition coord_init :: "Conn \<Rightarrow> Operation \<Rightarrow> coord" where
  "coord_init bConn op = \<lparr>k_conn = bConn, k_workers = map W_start targets, k_wg = 2,
     k_out = [], k_closed = False, k_pc = M_loop, k_op = op, k_got = []\<rparr>"

inductive coord_step :: "bytes \<Rightarrow> coord \<Rightarrow> coord \<Rightarrow> bool" for args where
  invoke: "i < length (k_workers s) \<Longrightarrow> k_workers s ! i = W_start a \<Longrightarrow> k_pc s \<noteq> M_crash \<Longrightarrow>
    Conn_Invoke (k_conn s) a ''go'' args = (Ok op, c) \<Longrightarrow>
    coord_step args s (s\<lparr>k_conn := c, k_workers := (k_workers s)[i := W_recv a (Operation_Close op)]\<rparr>)"
| invoke_fails: "i < length (k_workers s) \<Longrightarrow> k_workers s ! i = W_start a \<Longrightarrow> k_pc s \<noteq> M_crash \<Longrightarrow>
    Conn_Invoke (k_conn s) a ''go'' args = (Err e, c) \<Longrightarrow>
    coord_step args s (s\<lparr>k_conn := c, k_workers := (k_workers s)[i := W_done], k_wg := k_wg s - 1\<rparr>)"
| invoke_panics: "i < length (k_workers s) \<Longrightarrow> k_workers s ! i = W_start a \<Longrightarrow> k_pc s \<noteq> M_crash \<Longrightarrow>
    Conn_Invoke (k_conn s) a ''go'' args = (Panic, c) \<Longrightarrow> coord_step args s (s\<lparr>k_pc := M_crash\<rparr>)"
| recv: "i < length (k_workers s) \<Longrightarrow> k_workers s ! i = W_recv a op \<Longrightarrow> k_pc s \<noteq> M_crash \<Longrightarrow>
    Operation_Recv op = (Ok f, op') \<Longrightarrow> length (k_out s) < 2 \<Longrightarrow>
    coord_step args s (s\<lparr>k_workers := (k_workers s)[i := W_done], k_wg := k_wg s - 1,
      k_out := k_out s @ [chunk (a, f_Payload f)], k_got := k_got s @ [(a, f_Payload f)]\<rparr>)"
| recv_fails: "i < length (k_workers s) \<Longrightarrow> k_workers s ! i = W_recv a op \<Longrightarrow> k_pc s \<noteq> M_crash \<Longrightarrow>
    Operation_Recv op = (Err e, op') \<Longrightarrow>
    coord_step args s (s\<lparr>k_workers := (k_workers s)[i := W_done], k_wg := k_wg s - 1\<rparr>)"
| close_out: "k_pc s \<noteq> M_crash \<Longrightarrow> k_wg s = 0 \<Longrightarrow> \<not> k_closed s \<Longrightarrow> coord_step args s (s\<lparr>k_closed := True\<rparr>)"
| forward: "k_pc s = M_loop \<Longrightarrow> k_out s = b # bs \<Longrightarrow> Operation_Send (k_op s) (stream_frame b) = (Ok u, op) \<Longrightarrow>
    coord_step args s (s\<lparr>k_op := op, k_out := bs\<rparr>)"
| forward_fails: "k_pc s = M_loop \<Longrightarrow> k_out s = b # bs \<Longrightarrow> Operation_Send (k_op s) (stream_frame b) = (Err e, op) \<Longrightarrow>
    coord_step args s (s\<lparr>k_op := op, k_out := bs, k_pc := M_return (Some e)\<rparr>)"
| forward_panics: "k_pc s = M_loop \<Longrightarrow> k_out s = b # bs \<Longrightarrow> Operation_Send (k_op s) (stream_frame b) = (Panic, op) \<Longrightarrow>
    coord_step args s (s\<lparr>k_pc := M_crash\<rparr>)"
| finish: "k_pc s = M_loop \<Longrightarrow> k_out s = [] \<Longrightarrow> k_closed s \<Longrightarrow> coord_step args s (s\<lparr>k_pc := M_return None\<rparr>)"

section \<open>Every run of the coordinator ends\<close>

fun worker_left :: "worker \<Rightarrow> nat" where
  "worker_left (W_start a) = 3"
| "worker_left (W_recv a op) = 2"
| "worker_left W_done = 0"

fun pc_left :: "range_pc \<Rightarrow> nat" where
  "pc_left M_loop = 2"
| "pc_left (M_return r) = 1"
| "pc_left M_crash = 0"

definition coord_left :: "coord \<Rightarrow> nat" where
  "coord_left s = sum_list (map worker_left (k_workers s)) + length (k_out s) + (if k_closed s then 0 else 1) + pc_left (k_pc s)"

lemmas workers_update = sum_list_map_update [where f = worker_left]

lemma coord_step_left: "coord_step args s s' \<Longrightarrow> coord_left s' < coord_left s"
proof (induction rule: coord_step.induct)
  case (invoke i s a op c)
  then show ?case using workers_update [OF invoke(1), of "W_recv a (Operation_Close op)"] by (simp add: coord_left_def)
next
  case (invoke_fails i s a e c)
  then show ?case using workers_update [OF invoke_fails(1), of W_done] by (simp add: coord_left_def)
next
  case (invoke_panics i s a c)
  then show ?case by (cases "k_pc s") (simp_all add: coord_left_def)
next
  case (recv i s a op f op')
  then show ?case using workers_update [OF recv(1), of W_done] by (simp add: coord_left_def)
next
  case (recv_fails i s a op e op')
  then show ?case using workers_update [OF recv_fails(1), of W_done] by (simp add: coord_left_def)
qed (simp_all add: coord_left_def)

lemma coord_run_left: "(coord_step args ^^ n) s s' \<Longrightarrow> n + coord_left s' \<le> coord_left s"
proof (induction n arbitrary: s')
  case (Suc n)
  then obtain t where "(coord_step args ^^ n) s t" "coord_step args t s'" by auto
  then show ?case using Suc.IH [of t] coord_step_left [of args t s'] by simp
qed simp

section \<open>What the coordinator keeps\<close>

fun busy :: "worker \<Rightarrow> nat" where
  "busy W_done = 0"
| "busy _ = 1"

fun worker_name :: "worker \<Rightarrow> string option" where
  "worker_name (W_start a) = Some a"
| "worker_name (W_recv a op) = Some a"
| "worker_name W_done = None"

definition running :: "coord \<Rightarrow> nat" where
  "running s = sum_list (map busy (k_workers s))"

lemmas busy_update = sum_list_map_update [where f = busy]

text \<open>The channel never holds more than the workers that are done could have put there.\<close>

definition channel_inv :: "coord \<Rightarrow> bool" where
  "channel_inv s \<longleftrightarrow> length (k_workers s) = 2 \<and> k_wg s = int (running s) \<and> length (k_out s) + running s \<le> 2 \<and>
     (k_closed s \<longrightarrow> k_wg s = 0) \<and> (k_pc s = M_return None \<longrightarrow> k_closed s \<and> k_out s = [])"

lemma running_0: "running s = 0 \<longleftrightarrow> set (k_workers s) \<subseteq> {W_done}"
proof -
  have "busy w = 0 \<longleftrightarrow> w = W_done" for w by (cases w) simp_all
  then show ?thesis by (auto simp: running_def)
qed

lemma running_busy: "i < length (k_workers s) \<Longrightarrow> k_workers s ! i = w \<Longrightarrow> w \<noteq> W_done \<Longrightarrow> 0 < running s"
  using running_0 [of s] nth_mem by fastforce

lemma channel_inv_step: "coord_step args s s' \<Longrightarrow> channel_inv s \<Longrightarrow> channel_inv s'"
proof (induction rule: coord_step.induct)
  case (invoke i s a op c)
  then show ?case using busy_update [OF invoke(1), of "W_recv a (Operation_Close op)"]
    by (auto simp: channel_inv_def running_def)
next
  case (invoke_fails i s a e c)
  then show ?case using busy_update [OF invoke_fails(1), of W_done] running_busy [OF invoke_fails(1,2)]
    by (auto simp: channel_inv_def running_def)
next
  case (recv i s a op f op')
  then show ?case using busy_update [OF recv(1), of W_done] running_busy [OF recv(1,2)]
    by (auto simp: channel_inv_def running_def)
next
  case (recv_fails i s a op e op')
  then show ?case using busy_update [OF recv_fails(1), of W_done] running_busy [OF recv_fails(1,2)]
    by (auto simp: channel_inv_def running_def)
qed (auto simp: channel_inv_def running_def)

text \<open>Replies are forwarded in the order of the channel; each worker replies at most once, under its name.\<close>

definition forward_inv :: "Operation \<Rightarrow> coord \<Rightarrow> bool" where
  "forward_inv op0 s \<longleftrightarrow> op_OpID (k_op s) = op_OpID op0 \<and>
     (k_pc s = M_loop \<or> k_pc s = M_return None \<longrightarrow>
       (\<exists>fwd. map chunk (k_got s) = fwd @ k_out s \<and>
          s_sent (op_stream (k_op s)) = s_sent (op_stream op0) @ map (frame_bytes (op_OpID op0)) fwd))"

lemma Send_frame_bytes:
  assumes "Operation_Send op (stream_frame b) = (Ok u, op')"
  shows "s_sent (op_stream op') = s_sent (op_stream op) @ [frame_bytes (op_OpID op) b]" "op_OpID op' = op_OpID op"
  using Send_sent [of op "stream_frame b" op'] assms by (auto simp: frame_bytes_def op_frame_def)

lemma Send_OpID: "Operation_Send op f = (res, op') \<Longrightarrow> op_OpID op' = op_OpID op"
  by (auto simp: Operation_Send_def Let_def split: prod.splits)

lemma forward_inv_step: "coord_step args s s' \<Longrightarrow> forward_inv op0 s \<Longrightarrow> forward_inv op0 s'"
proof (induction rule: coord_step.induct)
  case (recv i s a op f op')
  then show ?case by (auto simp: forward_inv_def)
next
  case (forward s b bs u op)
  then obtain fwd where "map chunk (k_got s) = fwd @ b # bs"
      "s_sent (op_stream (k_op s)) = s_sent (op_stream op0) @ map (frame_bytes (op_OpID op0)) fwd" "op_OpID (k_op s) = op_OpID op0"
    by (auto simp: forward_inv_def)
  then show ?case using Send_frame_bytes [OF forward(3)] by (auto simp: forward_inv_def intro!: exI [of _ "fwd @ [b]"])
next
  case (forward_fails s b bs e op)
  then show ?case using Send_OpID [OF forward_fails(3)] by (simp add: forward_inv_def)
qed (auto simp: forward_inv_def)

lemma targets_simps: "length targets = 2" "distinct targets" "set targets = {''wordcount'', ''reverse''}"
  by (simp_all add: targets_def)

definition names_inv :: "coord \<Rightarrow> bool" where
  "names_inv s \<longleftrightarrow> length (k_workers s) = length targets \<and> distinct (map fst (k_got s)) \<and> set (map fst (k_got s)) \<subseteq> set targets \<and>
     (\<forall>i < length targets. \<forall>a. worker_name (k_workers s ! i) = Some a \<longrightarrow>
        a = targets ! i \<and> a \<notin> set (map fst (k_got s)))"

lemma names_inv_update:
  assumes "names_inv s" "i < length (k_workers s)" "worker_name w = None \<or> worker_name w = worker_name (k_workers s ! i)"
    "k_workers s' = (k_workers s)[i := w]" "k_got s' = k_got s"
  shows "names_inv s'"
proof -
  note inv = assms(1) [unfolded names_inv_def]
  have "worker_name (k_workers s' ! j) = Some b \<longrightarrow> worker_name (k_workers s ! j) = Some b" for j b
    using assms(2,3,4) by (cases "j = i") auto
  then show ?thesis using inv assms(4,5) unfolding names_inv_def by (metis length_list_update)
qed

lemma names_inv_reply:
  assumes "names_inv s" "i < length (k_workers s)" "worker_name (k_workers s ! i) = Some a"
    "k_workers s' = (k_workers s)[i := W_done]" "k_got s' = k_got s @ [(a, p)]"
  shows "names_inv s'"
proof -
  note inv = assms(1) [unfolded names_inv_def]
  have i: "i < length targets" "a = targets ! i" "a \<notin> set (map fst (k_got s))" using inv assms(2,3) by auto
  have other: "b = targets ! j \<and> b \<notin> set (map fst (k_got s)) \<and> b \<noteq> a"
    if "j < length targets" "j \<noteq> i" "worker_name (k_workers s ! j) = Some b" for j b
    using inv that i(1,2) targets_simps(2) by (metis nth_eq_iff_index_eq)
  have "worker_name (k_workers s' ! j) = Some b \<longrightarrow> b = targets ! j \<and> b \<notin> set (map fst (k_got s'))" if "j < length targets" for j b
    using other [of j b] that assms(2,4,5) by (cases "j = i") (simp_all add: nth_list_update)
  moreover have "distinct (map fst (k_got s'))" "set (map fst (k_got s')) \<subseteq> set targets"
    using inv i assms(5) nth_mem [OF i(1)] by simp_all
  ultimately show ?thesis using inv assms(4) by (simp add: names_inv_def)
qed

lemma names_inv_step: "coord_step args s s' \<Longrightarrow> names_inv s \<Longrightarrow> names_inv s'"
proof (induction rule: coord_step.induct)
  case (invoke i s a op c)
  show ?case by (rule names_inv_update [OF invoke(5,1), of "W_recv a (Operation_Close op)"]) (simp_all add: invoke(2))
next
  case (invoke_fails i s a e c)
  show ?case by (rule names_inv_update [OF invoke_fails(5,1), of W_done]) simp_all
next
  case (recv i s a op f op')
  show ?case by (rule names_inv_reply [OF recv(6,1), of a _ "f_Payload f"]) (simp_all add: recv(2))
next
  case (recv_fails i s a op e op')
  show ?case by (rule names_inv_update [OF recv_fails(5,1), of W_done]) simp_all
qed (simp_all add: names_inv_def)

definition coord_inv :: "Operation \<Rightarrow> coord \<Rightarrow> bool" where
  "coord_inv op0 s \<longleftrightarrow> channel_inv s \<and> forward_inv op0 s \<and> names_inv s"

lemma coord_inv_run: "(coord_step args)\<^sup>*\<^sup>* (coord_init bConn op0) s \<Longrightarrow> coord_inv op0 s"
proof (induction rule: rtranclp_induct)
  case base
  have "running (coord_init bConn op0) = 2" by (simp add: running_def coord_init_def targets_def numeral_2_eq_2)
  then show ?case
    by (simp add: coord_inv_def coord_init_def channel_inv_def forward_inv_def names_inv_def targets_simps)
next
  case (step s s')
  then show ?case using channel_inv_step forward_inv_step names_inv_step by (simp add: coord_inv_def)
qed

section \<open>Properties of the coordinator\<close>

lemma coord_forwarded:
  assumes "(coord_step args)\<^sup>*\<^sup>* (coord_init bConn op) s" "k_pc s = M_return None"
  shows "set (k_workers s) \<subseteq> {W_done} \<and> k_out s = [] \<and> k_closed s \<and>
    s_sent (op_stream (k_op s)) = s_sent (op_stream op) @ map (\<lambda>r. frame_bytes (op_OpID op) (chunk r)) (k_got s) \<and>
    distinct (map fst (k_got s)) \<and> fst ` set (k_got s) \<subseteq> {''wordcount'', ''reverse''}"
proof -
  have inv: "channel_inv s" "forward_inv op s" "names_inv s" using coord_inv_run [OF assms(1)] by (simp_all add: coord_inv_def)
  have c: "running s = 0" "k_out s = []" "k_closed s" using inv(1) assms(2) by (auto simp: channel_inv_def)
  then obtain fwd where "map chunk (k_got s) = fwd"
      "s_sent (op_stream (k_op s)) = s_sent (op_stream op) @ map (frame_bytes (op_OpID op)) fwd"
    using inv(2) assms(2) by (auto simp: forward_inv_def)
  then show ?thesis using c inv(3) by (auto simp: running_0 names_inv_def targets_simps)
qed

text \<open>
  C32 (the coordinator forwards every reply once).  When the coordinator has returned
  without an error both workers are done, the channel is closed and empty, and what it has
  written to its caller are exactly the replies that were received, one frame each, in the
  order of arrival, marked with the name of the worker; no worker is reported twice.
\<close>

theorem coordinator_forwards:
  assumes "(coord_step args)\<^sup>*\<^sup>* (coord_init bConn op) s" "k_pc s = M_return None"
  shows "set (k_workers s) \<subseteq> {W_done} \<and> k_out s = [] \<and> k_closed s \<and>
    s_sent (op_stream (k_op s)) = s_sent (op_stream op) @ map (\<lambda>r. frame_bytes (op_OpID op) (chunk r)) (k_got s) \<and>
    distinct (map fst (k_got s)) \<and> fst ` set (k_got s) \<subseteq> {''wordcount'', ''reverse''}"
  using assms by (rule coord_forwarded)

lemma coord_progress:
  assumes "channel_inv s" "k_pc s \<noteq> M_crash" "running s \<noteq> 0 \<or> \<not> k_closed s \<or> k_pc s = M_loop"
  shows "\<exists>s'. coord_step args s s'"
proof (cases "running s = 0")
  case False
  then obtain i where i: "i < length (k_workers s)" "k_workers s ! i \<noteq> W_done"
    unfolding running_0 by (auto simp: subset_iff in_set_conv_nth)
  show ?thesis
  proof (cases "k_workers s ! i")
    case (W_start a)
    obtain res c where "Conn_Invoke (k_conn s) a ''go'' args = (res, c)" by (cases "Conn_Invoke (k_conn s) a ''go'' args")
    then show ?thesis
      using coord_step.invoke [OF i(1) W_start assms(2)] coord_step.invoke_fails [OF i(1) W_start assms(2)]
        coord_step.invoke_panics [OF i(1) W_start assms(2)] by (cases res) blast+
  next
    case (W_recv a op)
    obtain res op' where r: "Operation_Recv op = (res, op')" by (cases "Operation_Recv op")
    have "res \<noteq> Panic" using Recv_no_panic [of op] r by simp
    moreover have "length (k_out s) < 2" using assms(1) False by (simp add: channel_inv_def)
    ultimately show ?thesis
      using coord_step.recv [OF i(1) W_recv assms(2)] coord_step.recv_fails [OF i(1) W_recv assms(2)] r by (cases res) blast+
  qed (use i in simp)
next
  case True
  then have "k_wg s = 0" using assms(1) by (simp add: channel_inv_def)
  show ?thesis
  proof (cases "k_closed s")
    case False
    then show ?thesis using coord_step.close_out [OF assms(2) \<open>k_wg s = 0\<close>] by blast
  next
    case c: True
    then have loop: "k_pc s = M_loop" using assms(3) True by simp
    show ?thesis
    proof (cases "k_out s")
      case (Cons b bs)
      obtain res op where "Operation_Send (k_op s) (stream_frame b) = (res, op)" by (cases "Operation_Send (k_op s) (stream_frame b)")
      then show ?thesis
        using coord_step.forward [OF loop Cons] coord_step.forward_fails [OF loop Cons] coord_step.forward_panics [OF loop Cons]
        by (cases res) blast+
    qed (use coord_step.finish [OF loop _ c] in blast)
  qed
qed

text \<open>
  C33 (the coordinator ends).  Every interleaving of the coordinator and its goroutines ends
  within nine steps, and it ends only when the coordinator has returned and no goroutine is
  left, or the process panicked: no worker is ever blocked on the channel, even when the
  coordinator gives up because its caller is gone.  A worker's \<^verbatim>\<open>op.Recv\<close>, which takes no
  context, is taken to return: with a frame, or with the error that ends its stream.
\<close>

theorem coordinator_terminates:
  assumes "(coord_step args ^^ n) (coord_init bConn op) s"
  shows "n \<le> 9 \<and>
    ((\<nexists>s'. coord_step args s s') \<longrightarrow>
       k_pc s = M_crash \<or> (\<exists>r. k_pc s = M_return r) \<and> k_closed s \<and> set (k_workers s) \<subseteq> {W_done})"
proof
  have "coord_left (coord_init bConn op) = 9" by (simp add: coord_left_def coord_init_def targets_def)
  then show "n \<le> 9" using coord_run_left [OF assms] by simp
  have inv: "channel_inv s" using coord_inv_run [OF relpowp_imp_rtranclp [OF assms]] by (simp add: coord_inv_def)
  show "(\<nexists>s'. coord_step args s s') \<longrightarrow>
       k_pc s = M_crash \<or> (\<exists>r. k_pc s = M_return r) \<and> k_closed s \<and> set (k_workers s) \<subseteq> {W_done}"
    using coord_progress [OF inv, of args] unfolding running_0 [symmetric] by (cases "k_pc s") blast+
qed

subsection \<open>A run with two replies\<close>

definition peers_conn :: Conn where
  "peers_conn = \<lparr>c_qc = \<lparr>q_open = (\<lambda>_. Ok ((sample_stream (frame_bytes 4 [57]))\<lparr>s_ID := 4\<rparr>)), q_accept = (\<lambda>_. Err EOF),
       q_opened = 1, q_accepted = 0, q_closed = False\<rparr>,
     c_isClient = True, c_ctrl = None,
     c_state = Some \<lparr>hs_PeerNodeID = ''did:web:b'', hs_NegotiatedMinor = 2, hs_ActiveCapabilities = []\<rparr>\<rparr>"

lemma peers_invoke:
  assumes "length a \<le> 10" "length args \<le> 100"
  shows "\<exists>op c. Conn_Invoke (peers_conn\<lparr>c_qc := (c_qc peers_conn)\<lparr>q_opened := k\<rparr>\<rparr>) a ''go'' args = (Ok op, c) \<and>
    c = peers_conn\<lparr>c_qc := (c_qc peers_conn)\<lparr>q_opened := Suc k\<rparr>\<rparr> \<and>
    fst (Operation_Recv (Operation_Close op)) = Ok (op_frame 4 [57])"
proof -
  let ?c = "peers_conn\<lparr>c_qc := (c_qc peers_conn)\<lparr>q_opened := k\<rparr>\<rparr>" and ?s = "(sample_stream (frame_bytes 4 [57]))\<lparr>s_ID := 4\<rparr>"
  have l: "length a + length ''go'' + length args + 16 \<le> unat MaxFrameSize" using assms by simp
  obtain bs where "invoke_frame 4 a ''go'' args = Ok bs" using invoke_frame_Ok [OF l, of 4] by (auto simp: MaxVarint_def)
  then obtain op c where op: "Conn_Invoke ?c a ''go'' args = (Ok op, c)" "op_OpID op = 4" "s_in (op_stream op) = s_in ?s"
      "c = peers_conn\<lparr>c_qc := (c_qc peers_conn)\<lparr>q_opened := Suc k\<rparr>\<rparr>"
    using Conn_Invoke_Ok [of ?c _ ?s a "''go''" args bs] by (auto simp: peers_conn_def sample_stream_def)
  have "Frame_Encode (op_frame 4 [57]) = Ok (frame_bytes 4 [57])" by (rule frame_bytes_Ok) (simp_all add: MaxVarint_def)
  then have "Decode (frame_bytes 4 [57]) = Ok (op_frame 4 [57], length (frame_bytes 4 [57]))"
    by (intro frame.dec_enc) (simp_all add: Frame_wf_def op_frame_def stream_frame_def MaxVarint_def)
  then have "fst (Operation_Recv (Operation_Close op)) = Ok (op_frame 4 [57])"
    by (intro Recv_delivered(1)) (simp_all add: op op_frame_def pending_def sample_stream_def)
  then show ?thesis using op by blast
qed

lemma peers_run:
  assumes "length args \<le> 100"
  shows "\<exists>s. (coord_step args)\<^sup>*\<^sup>* (coord_init peers_conn (demo_op [])) s \<and> k_pc s = M_return None \<and>
       k_got s = [(''wordcount'', [57]), (''reverse'', [57])]"
proof -
  let ?s0 = "coord_init peers_conn (demo_op [])"
  have c0: "peers_conn\<lparr>c_qc := (c_qc peers_conn)\<lparr>q_opened := 1\<rparr>\<rparr> = peers_conn" by (simp add: peers_conn_def)
  obtain o1 c1 where 1: "Conn_Invoke peers_conn ''wordcount'' ''go'' args = (Ok o1, c1)"
      "c1 = peers_conn\<lparr>c_qc := (c_qc peers_conn)\<lparr>q_opened := Suc 1\<rparr>\<rparr>" "fst (Operation_Recv (Operation_Close o1)) = Ok (op_frame 4 [57])"
    using peers_invoke [of "''wordcount''" args 1, unfolded c0] assms by auto
  obtain o2 c2 where 2: "Conn_Invoke c1 ''reverse'' ''go'' args = (Ok o2, c2)" "fst (Operation_Recv (Operation_Close o2)) = Ok (op_frame 4 [57])"
    using peers_invoke [of "''reverse''" args "Suc 1", folded 1(2)] assms by auto
  obtain p1 p2 where r: "Operation_Recv (Operation_Close o1) = (Ok (op_frame 4 [57]), p1)"
      "Operation_Recv (Operation_Close o2) = (Ok (op_frame 4 [57]), p2)" using 1(3) 2(2) by (metis prod.collapse)
  let ?r1 = "(''wordcount'', [57 :: byte])" and ?r2 = "(''reverse'', [57 :: byte])"
  have send: "\<exists>op. Operation_Send (sends (demo_op []) bss) (stream_frame (chunk q)) = (Ok (), op) \<and> op = sends (demo_op []) (bss @ [frame_bytes 4 (chunk q)])"
    if "length (chunk q) \<le> unat MaxFrameSize" for bss q
    using Send_stream_cases [of "sends (demo_op []) bss" "chunk q"] that by (simp add: MaxVarint_def)
  let ?s1 = "?s0\<lparr>k_conn := c1, k_workers := [W_recv ''wordcount'' (Operation_Close o1), W_start ''reverse'']\<rparr>"
  let ?s2 = "?s1\<lparr>k_conn := c2, k_workers := [W_recv ''wordcount'' (Operation_Close o1), W_recv ''reverse'' (Operation_Close o2)]\<rparr>"
  let ?s3 = "?s2\<lparr>k_workers := [W_done, W_recv ''reverse'' (Operation_Close o2)], k_wg := 1, k_out := [chunk ?r1], k_got := [?r1]\<rparr>"
  let ?s4 = "?s3\<lparr>k_workers := [W_done, W_done], k_wg := 0, k_out := [chunk ?r1, chunk ?r2], k_got := [?r1, ?r2]\<rparr>"
  let ?s5 = "?s4\<lparr>k_closed := True\<rparr>"
  let ?s6 = "?s5\<lparr>k_op := sends (demo_op []) [frame_bytes 4 (chunk ?r1)], k_out := [chunk ?r2]\<rparr>"
  let ?s7 = "?s6\<lparr>k_op := sends (demo_op []) [frame_bytes 4 (chunk ?r1), frame_bytes 4 (chunk ?r2)], k_out := []\<rparr>"
  have a1: "coord_step args ?s0 ?s1" using coord_step.invoke [of 0 ?s0 "''wordcount''" args o1 c1] 1(1) by (simp add: coord_init_def targets_def)
  have a2: "coord_step args ?s1 ?s2" using coord_step.invoke [of 1 ?s1 "''reverse''" args o2 c2] 2(1) by (simp add: coord_init_def)
  have a3: "coord_step args ?s2 ?s3" using coord_step.recv [of 0 ?s2 "''wordcount''", OF _ _ _ r(1)]
    by (simp add: coord_init_def op_frame_def stream_frame_def)
  have a4: "coord_step args ?s3 ?s4" using coord_step.recv [of 1 ?s3 "''reverse''", OF _ _ _ r(2)]
    by (simp add: coord_init_def op_frame_def stream_frame_def)
  have a5: "coord_step args ?s4 ?s5" by (rule coord_step.close_out) (simp_all add: coord_init_def)
  have a6: "coord_step args ?s5 ?s6" using coord_step.forward [of ?s5 "chunk ?r1" "[chunk ?r2]"] send [of ?r1 "[]"]
    by (simp add: coord_init_def chunk_def)
  have a7: "coord_step args ?s6 ?s7" using coord_step.forward [of ?s6 "chunk ?r2" "[]"] send [of ?r2 "[frame_bytes 4 (chunk ?r1)]"]
    by (simp add: coord_init_def chunk_def)
  have a8: "coord_step args ?s7 (?s7\<lparr>k_pc := M_return None\<rparr>)" by (rule coord_step.finish) (simp_all add: coord_init_def)
  have "(coord_step args)\<^sup>*\<^sup>* ?s0 (?s7\<lparr>k_pc := M_return None\<rparr>)"
    by (rule converse_rtranclp_into_rtranclp [OF a1 converse_rtranclp_into_rtranclp [OF a2 converse_rtranclp_into_rtranclp [OF a3 converse_rtranclp_into_rtranclp [OF a4 converse_rtranclp_into_rtranclp [OF a5 converse_rtranclp_into_rtranclp [OF a6 converse_rtranclp_into_rtranclp [OF a7 r_into_rtranclp [where r = "coord_step args", OF a8]]]]]]]])
  then show ?thesis by (intro exI conjI) (assumption, simp_all)
qed

theorem coordinator_forwards_witness:
  "\<exists>s. (coord_step [])\<^sup>*\<^sup>* (coord_init peers_conn (demo_op [])) s \<and>
     s_sent (op_stream (k_op s)) = [frame_bytes 4 (chunk (''wordcount'', [57])), frame_bytes 4 (chunk (''reverse'', [57]))]"
proof -
  obtain s where s: "(coord_step [])\<^sup>*\<^sup>* (coord_init peers_conn (demo_op [])) s" "k_pc s = M_return None"
      "k_got s = [(''wordcount'', [57]), (''reverse'', [57])]" using peers_run [of "[]"] by auto
  show ?thesis using s coordinator_forwards [OF s(1,2)] by (intro exI [of _ s]) simp
qed

theorem coordinator_terminates_witness:
  "\<exists>n s. (coord_step [] ^^ n) (coord_init peers_conn (demo_op [])) s \<and> k_pc s = M_return None \<and> n \<le> 9"
proof -
  obtain s where "(coord_step [])\<^sup>*\<^sup>* (coord_init peers_conn (demo_op [])) s" and pc: "k_pc s = M_return None"
    using peers_run [of "[]"] by auto
  then obtain n where s: "(coord_step [] ^^ n) (coord_init peers_conn (demo_op [])) s" using rtranclp_imp_relpowp by metis
  show ?thesis using s pc coordinator_terminates [OF s] by blast
qed

theorem worker_replies_witness:
  "\<exists>q. reverseAgent (demo_invoke (string_of_runes [0x68, 0xE9])) = Operation_Send (demo_op []) (stream_frame q) \<and>
     q = string_of_runes [0xE9, 0x68] \<and> length q = 3"
proof -
  have "list_all scalar [0x68, 0xE9]" by (simp add: scalar_def)
  moreover have "length (string_of_runes [0x68, 0xE9]) = 3" by (simp add: string_of_runes_def EncodeRune_def scalar_def)
  ultimately show ?thesis
    using worker_replies [of "demo_invoke (string_of_runes [0x68, 0xE9])" "[0x68, 0xE9]"] by auto
qed

section \<open>The program\<close>

text \<open>
  Two nodes, a link between them, and a client of the first.  The \<open>i\<close>-th call to bind a
  listener is answered by \<open>listenAddr i\<close>; the two handshakes draw their own keys and nonces.
  \<^verbatim>\<open>must\<close> and \<^verbatim>\<open>log.Fatalf\<close> end the program with the error.
\<close>

definition must :: "error option \<Rightarrow> unit outcome" where
  "must err = (case err of None \<Rightarrow> Ok () | Some e \<Rightarrow> Err e)"

definition sentence :: string where
  "sentence = ''the quick brown fox jumps over the lazy dog''"

definition peers_client :: "env \<Rightarrow> Conn \<Rightarrow> (bytes list \<times> Conn) outcome" where
  "peers_client env cConn =
     (case Conn_Handshake env cConn zero_config of
        (Err e, _) \<Rightarrow> Err (Wrap ''client handshake'' e)
      | (Panic, _) \<Rightarrow> Panic
      | (Ok cState, cConn, _) \<Rightarrow>
          (case Conn_Invoke cConn ''coordinator'' ''process'' (bytes_of_string sentence) of
             (Err e, _) \<Rightarrow> Err (Wrap ''client invoke'' e)
           | (Panic, _) \<Rightarrow> Panic
           | (Ok op, cConn) \<Rightarrow>
               (case recv_loop 2 (Operation_Close op) of
                  (res, op) \<Rightarrow> obind (on_err (Wrap ''client recv chunk'') res) (\<lambda>chunks. Ok (chunks, Conn_Close cConn)))))"

definition vega_A ::
  "(nat \<Rightarrow> string \<Rightarrow> 'tls \<Rightarrow> QListener outcome) \<Rightarrow> (string \<Rightarrow> 'tls \<Rightarrow> QConn outcome) \<Rightarrow> 'tls \<Rightarrow> env \<Rightarrow> agent \<Rightarrow>
   (Node \<times> bytes list \<times> Conn) outcome" where
  "vega_A listenAddr dialAddr tls env coordinator =
     (case RegisterAgent (NewNode zero_config) ''coordinator'' (Some coordinator) of
        (err, vegaA) \<Rightarrow>
          obind (must err) (\<lambda>_.
          obind (Listen (listenAddr 1) ''127.0.0.1:0'' tls) (\<lambda>listener.
          obind (on_err (Wrap ''client dial'') (Dial dialAddr (Node_Addr (Some listener)) tls)) (\<lambda>cConn.
          obind (peers_client env cConn) (\<lambda>(chunks, cConn).
          Ok (vegaA, chunks, cConn))))))"

definition vega_B ::
  "(nat \<Rightarrow> string \<Rightarrow> 'tls \<Rightarrow> QListener outcome) \<Rightarrow> (string \<Rightarrow> 'tls \<Rightarrow> QConn outcome) \<Rightarrow> 'tls \<Rightarrow> env \<Rightarrow> agent \<Rightarrow> agent \<Rightarrow>
   (Node \<times> Conn) outcome" where
  "vega_B listenAddr dialAddr tls env wordcount reverse =
     (case RegisterAgent (NewNode zero_config) ''wordcount'' (Some wordcount) of
        (err, vegaB) \<Rightarrow>
          obind (must err) (\<lambda>_.
          case RegisterAgent vegaB ''reverse'' (Some reverse) of
            (err, vegaB) \<Rightarrow>
              obind (must err) (\<lambda>_.
              obind (Listen (listenAddr 0) ''127.0.0.1:0'' tls) (\<lambda>listener.
              obind (on_err (Wrap ''vega-A to vega-B dial'') (Dial dialAddr (Node_Addr (Some listener)) tls)) (\<lambda>bConn.
              case Conn_Handshake env bConn zero_config of
                (Err e, _) \<Rightarrow> Err (Wrap ''vega-A to vega-B handshake'' e)
              | (Panic, _) \<Rightarrow> Panic
              | (Ok bState, bConn, _) \<Rightarrow> Ok (vegaB, bConn))))))"

definition peers_main ::
  "(nat \<Rightarrow> string \<Rightarrow> 'tls \<Rightarrow> QListener outcome) \<Rightarrow> (string \<Rightarrow> 'tls \<Rightarrow> QConn outcome) \<Rightarrow> 'tls \<Rightarrow> env \<Rightarrow> env \<Rightarrow>
   agent \<Rightarrow> agent \<Rightarrow> (Conn \<Rightarrow> agent) \<Rightarrow> (Node \<times> Node \<times> bytes list \<times> Conn \<times> Conn) outcome" where
  "peers_main listenAddr dialAddr tls envB envC wordcount reverse coordinator =
     obind (vega_B listenAddr dialAddr tls envB wordcount reverse) (\<lambda>(vegaB, bConn).
     obind (vega_A listenAddr dialAddr tls envC (coordinator bConn)) (\<lambda>(vegaA, chunks, cConn).
     Ok (vegaA, vegaB, chunks, cConn, Conn_Close bConn)))"

lemma vega_B_Ok:
  assumes "listenAddr 0 ''127.0.0.1:0'' tls = Ok ql" "dialAddr (ql_addr ql) tls = Ok qc"
    and "q_open qc (q_opened qc) = Ok ctrl" "fst (runHandshake env ctrl zero_config) = Ok st"
  shows "\<exists>vegaB bConn. vega_B listenAddr dialAddr tls env wordcount reverse = Ok (vegaB, bConn) \<and>
    n_agents vegaB = [''wordcount'' \<mapsto> wordcount, ''reverse'' \<mapsto> reverse] \<and> c_state bConn = Some st"
proof -
  let ?conn = "\<lparr>c_qc = qc, c_isClient = True, c_ctrl = None, c_state = None\<rparr>"
  obtain ctrl' v where run: "runHandshake env ctrl zero_config = (Ok st, ctrl', v)" using assms(4) by (metis prod.collapse)
  obtain bConn where "Conn_Handshake env ?conn zero_config = (Ok st, bConn, v)" "c_state bConn = Some st"
    using Conn_Handshake_fresh [of ?conn ctrl env zero_config, OF _ _ run] assms(3) by (auto simp: fresh_def)
  moreover have "Listen (listenAddr 0) ''127.0.0.1:0'' tls = Ok \<lparr>l_ql = ql\<rparr>" using assms(1) by (simp add: Listen_def)
  moreover have "Dial dialAddr (ql_addr ql) tls = Ok ?conn" using assms(2) by (simp add: Dial_Ok_iff)
  ultimately show ?thesis
    by (simp add: vega_B_def RegisterAgent_def NewNode_def Node_Addr_def Listener_Addr_def must_def)
qed

lemma vega_A_Ok:
  assumes "listenAddr 1 ''127.0.0.1:0'' tls = Ok ql" "dialAddr (ql_addr ql) tls = Ok qc"
    and "q_open qc (q_opened qc) = Ok ctrl" "fst (runHandshake env ctrl zero_config) = Ok st"
    and "q_open qc (Suc (q_opened qc)) = Ok s" "\<forall>bs. s_write s bs = None" "s_ID s \<le> MaxVarint"
    and "concat (rd_chunks (s_in s)) = frame_bytes (s_ID s) b1 @ frame_bytes (s_ID s) b2 @ rest"
    and "length b1 \<le> unat MaxFrameSize" "length b2 \<le> unat MaxFrameSize"
  shows "\<exists>vegaA cConn. vega_A listenAddr dialAddr tls env coordinator = Ok (vegaA, [b1, b2], cConn) \<and>
    n_agents vegaA = [''coordinator'' \<mapsto> coordinator] \<and> q_closed (c_qc cConn)"
proof -
  let ?conn = "\<lparr>c_qc = qc, c_isClient = True, c_ctrl = None, c_state = None\<rparr>"
  have "length ''coordinator'' + length ''process'' + length (bytes_of_string sentence) + 16 \<le> unat MaxFrameSize"
    by (simp add: sentence_def)
  from client_invokes [of ?conn, OF _ _ _ assms(4) _ assms(6,7) this] assms(3,5) obtain c' v op c'' where
      op: "Conn_Handshake env ?conn zero_config = (Ok st, c', v)"
        "Conn_Invoke c' ''coordinator'' ''process'' (bytes_of_string sentence) = (Ok op, c'')"
        "op_OpID op = s_ID s" "s_in (op_stream op) = s_in s" by (auto simp: fresh_def)
  have "fst (recv_loop 2 (Operation_Close op)) = Ok (take 2 [b1, b2])"
    using assms(7-10) op(3,4) by (intro recv_loop_frames [where rest = rest]) (simp_all add: pending_def)
  then obtain op' where "recv_loop 2 (Operation_Close op) = (Ok [b1, b2], op')" by (cases "recv_loop 2 (Operation_Close op)") auto
  then have "peers_client env ?conn = Ok ([b1, b2], Conn_Close c'')" using op(1,2) by (simp add: peers_client_def)
  moreover have "Listen (listenAddr 1) ''127.0.0.1:0'' tls = Ok \<lparr>l_ql = ql\<rparr>" using assms(1) by (simp add: Listen_def)
  moreover have "Dial dialAddr (ql_addr ql) tls = Ok ?conn" using assms(2) by (simp add: Dial_Ok_iff)
  ultimately show ?thesis
    by (simp add: vega_A_def RegisterAgent_def NewNode_def Node_Addr_def Listener_Addr_def must_def)
qed

text \<open>
  The peers program.  With both links up and both handshakes complete, and a call of
  the coordinator that got both workers' replies and whose frames arrive at the client in
  any chunks, the program runs to its end: the agents are registered on their nodes and the
  client has read exactly the two replies, one from each worker, in the order in which the
  coordinator received them.
\<close>

theorem peers_main_output:
  assumes "listenAddr 0 ''127.0.0.1:0'' tls = Ok qlB" "dialAddr (ql_addr qlB) tls = Ok qcB"
    and "q_open qcB (q_opened qcB) = Ok ctrlB" "fst (runHandshake envB ctrlB zero_config) = Ok stB"
    and "listenAddr 1 ''127.0.0.1:0'' tls = Ok qlA" "dialAddr (ql_addr qlA) tls = Ok qcA"
    and "q_open qcA (q_opened qcA) = Ok ctrlA" "fst (runHandshake envA ctrlA zero_config) = Ok stA"
    and "q_open qcA (Suc (q_opened qcA)) = Ok s" "\<forall>bs. s_write s bs = None" "s_ID s \<le> MaxVarint"
    and "(coord_step (bytes_of_string sentence))\<^sup>*\<^sup>* (coord_init bConn op) k" "k_pc k = M_return None" "length (k_got k) = 2"
    and "\<forall>r \<in> set (k_got k). length (chunk r) \<le> unat MaxFrameSize" "op_OpID op = s_ID s" "s_sent (op_stream op) = []"
    and "concat (rd_chunks (s_in s)) = concat (s_sent (op_stream (k_op k))) @ rest"
  shows "\<exists>vegaA vegaB cConn bConn. peers_main listenAddr dialAddr tls envB envA wordcount reverse coordinator =
      Ok (vegaA, vegaB, map chunk (k_got k), cConn, bConn) \<and>
    fst ` set (k_got k) = {''wordcount'', ''reverse''} \<and>
    n_agents vegaB = [''wordcount'' \<mapsto> wordcount, ''reverse'' \<mapsto> reverse] \<and> dom (n_agents vegaA) = {''coordinator''} \<and>
    q_closed (c_qc cConn) \<and> q_closed (c_qc bConn)"
proof -
  note k = coord_forwarded [OF assms(12,13)]
  obtain r1 r2 where got: "k_got k = [r1, r2]" using assms(14) by (auto simp: length_Suc_conv numeral_2_eq_2)
  have "card (fst ` set (k_got k)) = 2" using k got by (auto simp: card_insert_if)
  moreover have "fst ` set (k_got k) \<subseteq> {''wordcount'', ''reverse''}" using k by simp
  ultimately have names: "fst ` set (k_got k) = {''wordcount'', ''reverse''}" by (intro card_subset_eq) simp_all
  obtain vegaB bc where B: "vega_B listenAddr dialAddr tls envB wordcount reverse = Ok (vegaB, bc)"
      "n_agents vegaB = [''wordcount'' \<mapsto> wordcount, ''reverse'' \<mapsto> reverse]"
    using vega_B_Ok [where listenAddr = listenAddr and dialAddr = dialAddr and tls = tls, OF assms(1-4)] by blast
  have "concat (rd_chunks (s_in s)) = frame_bytes (s_ID s) (chunk r1) @ frame_bytes (s_ID s) (chunk r2) @ rest"
    using k got assms(16-18) by simp
  then obtain vegaA cc where A: "vega_A listenAddr dialAddr tls envA (coordinator bc) = Ok (vegaA, [chunk r1, chunk r2], cc)"
      "n_agents vegaA = [''coordinator'' \<mapsto> coordinator bc]" "q_closed (c_qc cc)"
    using vega_A_Ok [where listenAddr = listenAddr and dialAddr = dialAddr and tls = tls, OF assms(5-11), of "chunk r1" "chunk r2" rest "coordinator bc"] assms(15) got by auto
  show ?thesis using A B names got by (simp add: peers_main_def)
qed

theorem peers_main_output_witness:
  "\<exists>listenAddr dialAddr wordcount reverse coordinator vegaA vegaB chunks cConn bConn.
     peers_main listenAddr dialAddr () demo_env demo_env wordcount reverse coordinator = Ok (vegaA, vegaB, chunks, cConn, bConn) \<and>
     chunks = [chunk (''wordcount'', [57]), chunk (''reverse'', [57])]"
proof -
  have "length (bytes_of_string sentence) \<le> 100" by (simp add: sentence_def)
  from peers_run [OF this] obtain k where k: "(coord_step (bytes_of_string sentence))\<^sup>*\<^sup>* (coord_init peers_conn (demo_op [])) k"
      "k_pc k = M_return None" "k_got k = [(''wordcount'', [57]), (''reverse'', [57])]" by blast
  obtain ctrl st where h: "fst (runHandshake demo_env ctrl zero_config) = Ok st" using demo_handshake by blast
  let ?s = "op_stream (demo_op (concat (s_sent (op_stream (k_op k)))))"
  let ?qc = "\<lparr>q_open = (\<lambda>i. if i = 0 then Ok ctrl else Ok ?s), q_accept = (\<lambda>_. Err EOF), q_opened = 0, q_accepted = 0, q_closed = False\<rparr>"
  let ?ql = "\<lparr>ql_accept = (\<lambda>_. Err EOF), ql_accepted = 0, ql_addr = ''127.0.0.1:9'', ql_closed = False\<rparr>"
  let ?ag = "\<lambda>iv. (None :: error option, inv_Op iv)"
  note t = peers_main_output [where listenAddr = "\<lambda>_ _ _. Ok ?ql" and dialAddr = "\<lambda>_ _. Ok ?qc" and tls = "()" and qlA = ?ql and qlB = ?ql
      and qcA = ?qc and qcB = ?qc and ctrlA = ctrl and ctrlB = ctrl and s = ?s and rest = "[]" and k = k
      and wordcount = ?ag and reverse = ?ag and coordinator = "\<lambda>_. ?ag", OF _ _ _ h _ _ _ h _ _ _ k(1,2)]
  have "s_ID ?s = 4" "\<forall>bs. s_write ?s bs = None" "concat (rd_chunks (s_in ?s)) = concat (s_sent (op_stream (k_op k)))"
    by (simp_all add: demo_op_def sample_stream_def)
  with t k(3) show ?thesis by (fastforce simp: MaxVarint_def chunk_def)
qed

end
