(* ===== verification/Spec2Isabelle.thy ===== *)
theory Spec2Isabelle imports Conformance Lifecycle Peers begin

text \<open>
  Verification of aire-go, the Go implementation of the AIRE agent protocol over QUIC.

  \<^bold>\<open>The program.\<close>  Two nodes hold a QUIC connection.  On its control stream each sends a HELLO
  frame, signed with an Ed25519 key that a DID names, and checks the other's: version,
  signature, timestamp window, replay cache, capabilities.  After that either side opens a
  stream per operation; the first frame is an INVOKE that names an agent of the other node,
  and the node's dispatcher runs that agent on the rest of the stream.  CANCEL and BUDGET
  payloads and the resolution of handles and DIDs to endpoints complete the library; two
  demo programs use it.

  \<^bold>\<open>The theories\<close>, each with the source file it models (under src/).

    \<^item> \<^verbatim>\<open>Prelude\<close>: errors and outcomes (a Go result is a value, an error or a panic), slices with
      their bounds checks, bytes and strings, and the interfaces of codecs: \<open>decoder\<close>,
      \<open>incremental_decoder\<close>, \<open>codec\<close>, \<open>canonical_codec\<close>, \<open>payload_codec\<close> and
      \<open>typed_payload_codec\<close>.  Every decoder of the library interprets one of them.
    \<^item> \<^verbatim>\<open>Frame\<close> (frame.go): varints and frames.  \<^verbatim>\<open>Wire\<close> (handshake.go, appendString and readString).
      \<^verbatim>\<open>Cancel\<close> (cancel.go), \<^verbatim>\<open>Budget\<close> (budget.go): the payloads.  \<^verbatim>\<open>Stream_IO\<close> (conn.go, readFrame
      and Stream): frames read from a byte stream that arrives in arbitrary chunks.
    \<^item> \<^verbatim>\<open>Go_Strings\<close>, \<^verbatim>\<open>Go_URL\<close>, \<^verbatim>\<open>Go_Text\<close>: what the code uses of strings, net/url, strconv and
      unicode/utf8.
    \<^item> \<^verbatim>\<open>Capability\<close> (capability.go): name grammar and negotiation.  \<^verbatim>\<open>Base58\<close>, \<^verbatim>\<open>DIDKey\<close>, \<^verbatim>\<open>Signature\<close>,
      \<^verbatim>\<open>Verifier\<close> (identity.go): base58btc as a change of radix, did:key identifiers, the signature
      block, and the verifier with its window and its replay cache.  \<^verbatim>\<open>Addressing\<close>
      (addressing.go): handles, did:web documents and the resolver.
    \<^item> \<^verbatim>\<open>Handshake\<close> (handshake.go, the Signer of identity.go, the Conn of conn.go): HELLO payload,
      signing, the whole exchange and its errors.  \<^verbatim>\<open>Operation\<close> (operation.go).  \<^verbatim>\<open>Node\<close> (node.go): INVOKE
      payload, registry, dispatch and \<^verbatim>\<open>Conn.Invoke\<close>.  \<^verbatim>\<open>Session\<close> (conn.go): listeners and dialling.
    \<^item> \<^verbatim>\<open>Lifecycle\<close> (node.go): Listen, Stop, the accept loop and the handlers as interleaved steps
      on the state they share.
    \<^item> \<^verbatim>\<open>Demo\<close> (cmd/aire-demo), \<^verbatim>\<open>Peers\<close> (cmd/aire-peers): the agents and programs; the
      coordinator's goroutines and channel are again a step relation.
    \<^item> \<^verbatim>\<open>Conformance\<close>: the vectors of testdata/ evaluated on the model.

  \<^bold>\<open>How the code is read.\<close>  A struct is a record, with a prefix on its fields; a method is a
  function named after its type; a pointer receiver that is written is an argument returned
  updated.  \<^verbatim>\<open>uint64\<close> and \<^verbatim>\<open>int64\<close> are 64-bit words, read with \<open>unat\<close> and \<open>sint\<close>; lengths and
  positions are natural numbers, which on slices never wrap.  Errors keep the sentinel they
  wrap and a fixed part of their message; the values formatted into messages are dropped.
  A \<^verbatim>\<open>time.Time\<close> is an integer of nanoseconds.  QUIC, HTTP, DNS, JSON, Ed25519, the clock and the
  random source are parameters; what is assumed of them is a hypothesis of the theorem that
  needs it.  An operation keeps a copy of its connection, whose handshake state no call
  changes once it is set.  A reader is what its reads will deliver, ending in an error, so a
  read in the sequential parts returns; where a read may wait for ever matters to the
  claim, in \<^verbatim>\<open>Lifecycle\<close>, waiting is a state of its own.  Concurrency is modelled where goroutines
  share state: the verifier (\<open>verify_step\<close>), the node's life cycle, the coordinator.

  \<^bold>\<open>What is shown.\<close>
    \<^item> Codecs: round trips, no panic on any input, incremental decoding (a prefix is short, an
      extension changes nothing), independence of chunking, and, in this theory, that every
      decoded value is well-formed and re-encodes, the empty budget apart.
    \<^item> Identity: base58 and did:key are bijections; the signed bytes fix everything they should;
      \<^verbatim>\<open>Verify\<close> accepts exactly the blocks in the window, with a new nonce, signed by the key
      published for their method; no block is accepted twice while the clock readings are in
      the order of the critical sections.
    \<^item> Handshake: a completed one at minor version 2 authenticates the peer's DID; honest nodes
      complete and agree; a signed HELLO is refused in every later handshake on the same
      verifier; every error of a handshake is traced to its cause.
    \<^item> Operations and nodes: dispatch runs exactly the named agent with the handshake's NodeID
      and closes what the agent leaves; and the whole path from dialling to the agent, in
      this theory.
    \<^item> Life cycle: the wait group counts the goroutines, Stop leaves nothing behind unless it
      overlaps with Listen, its work is bounded, and it returns unless a peer in the HELLO
      exchange stays silent on a live connection.
    \<^item> Where the code does not do what it says, the theorem shows what it does: the panic on a
      claimed capability count, the unauthenticated old versions, the replay under concurrent
      clock readings, the leaked listener, the connection closed under its operations, Stop
      held up by a silent peer.

  \<^bold>\<open>Termination and bounds.\<close>  Loops over input are structural or have a measure; a counted loop
  counts down its iterations.  The one loop that may not end, the demo's token stream at the
  largest 64-bit count, is a partial function with a theorem that it returns below that.  The
  step relations have explicit measures.  Hypotheses bound string lengths by \<open>2 ^ 62\<close> (the
  varint range) and payloads by \<open>MaxFrameSize\<close>; the allocation limit \<open>2 ^ 48\<close> is that of a
  64-bit Go runtime.

  \<^bold>\<open>Not modelled.\<close>  \<^verbatim>\<open>DevTLSConfig\<close> (certificate generation by the standard library), the accessors
  \<^verbatim>\<open>Conn.Context\<close>, \<^verbatim>\<open>LocalAddr\<close> and \<^verbatim>\<open>RemoteAddr\<close>, log output and delays of the demos, memory use
  apart from the allocation panic, and the tests.
\<close>

section \<open>A whole session\<close>

text \<open>
  C3 (authenticated invocation).  A client with a did:key signer dials a node that listens,
  both sides run the handshake, and the client invokes an agent registered on the node.
  With honest nodes whose verifiers grant each other's HELLO, compatible capabilities and a
  transport that pairs the streams and delivers what was written on them, in any chunks:
  every call succeeds, the agent registered under the id runs on exactly the operation name
  and arguments of the call, and the caller reported to it is the DID of the key that the
  client signed with.
\<close>

theorem authenticated_invocation:
  assumes "honest_node envA privA cfgA nonceA" "honest_node envB privB (n_cfg n) nonceB"
    and "grants envA cfgA envB privB nonceB" "grants envB (n_cfg n) envA privA nonceA"
    and "hello_payload envA cfgA = Ok payloadA" "hello_payload envB (n_cfg n) = Ok payloadB"
    and "delivers ctrlA payloadB" "delivers ctrlB payloadA"
    and "compatible (nc_Capabilities cfgA) (nc_Capabilities (n_cfg n))"
    and "dialAddr addr tls = Ok qa" "ql_accept (l_ql l) (ql_accepted (l_ql l)) = Ok qb"
    and "paired qa qb ctrlA ctrlB opA opB" "n_agents n agentID = Some agent"
    and "length agentID + length opName + length args + 16 \<le> unat MaxFrameSize"
    and "invoke_frame (s_ID opA) agentID opName args = Ok bs" "concat (rd_chunks (s_in opB)) = bs @ rest"
  shows "\<exists>c l' s stA c' vA stB s' vB op c'' sop s'' iv.
    Dial dialAddr addr tls = Ok c \<and> Listener_Accept l = (Ok s, l') \<and>
    Conn_Handshake envA c cfgA = (Ok stA, c', vA) \<and> Conn_Handshake envB s (n_cfg n) = (Ok stB, s', vB) \<and>
    Conn_Invoke c' agentID opName args = (Ok op, c'') \<and> s_sent (op_stream op) = s_sent opA @ [bs] \<and>
    AcceptOperation s' = (Ok sop, s'') \<and>
    handleOperation n sop = (Some iv, Operation_Close (snd (agent iv))) \<and>
    inv_AgentID iv = agentID \<and> inv_Operation iv = opName \<and> inv_Args iv = args \<and>
    inv_PeerNodeID iv = MakeDIDKey (e_public envA privA)"
proof -
  have len: "length payloadA \<le> unat MaxFrameSize" "length payloadB \<le> unat MaxFrameSize"
    using assms(7,8) by (simp_all add: delivers_def)
  note a = honest_side [OF assms(1,2,3,5) len(1) assms(6,7,9)]
  have "compatible (nc_Capabilities (n_cfg n)) (nc_Capabilities cfgA)" using assms(9) by (simp add: compatible_sym)
  note b = honest_side [OF assms(2,1,4,6) len(2) assms(5,8) this]
  from session_invocation [where dialAddr = dialAddr and addr = addr and tls = tls, OF assms(12,10,11) a b assms(13-16)] show ?thesis by fastforce
qed

definition two_streams :: "Stream \<Rightarrow> Stream \<Rightarrow> nat \<Rightarrow> Stream outcome" where
  "two_streams a b i = (if i = 0 then Ok a else if i = 1 then Ok b else Err EOF)"

theorem authenticated_invocation_witness:
  "\<exists>n server iv. fst (handleOperation n server) = Some iv \<and> inv_AgentID iv = ''echo'' \<and> inv_Operation iv = ''run'' \<and>
     inv_Args iv = [7] \<and> inv_PeerNodeID iv = MakeDIDKey (replicate 32 1)"
proof -
  let ?a = "replicate 32 1 :: bytes" and ?b = "replicate 32 2 :: bytes"
  let ?n = "\<lparr>n_cfg = sample_cfg True ?b, n_agents = [''echo'' \<mapsto> (\<lambda>iv. (None, inv_Op iv))]\<rparr>"
  obtain pA pB where p: "hello_payload sample_env (sample_cfg True ?a) = Ok pA" "length pA \<le> 500"
      "hello_payload sample_env (sample_cfg True ?b) = Ok pB" "length pB \<le> 500"
    using sample_payload [of ?a] sample_payload [of ?b] by (metis length_replicate)
  obtain hA hB where d: "delivers (sample_stream hB) pB" "delivers (sample_stream hA) pA"
    using sample_delivers [OF p(2)] sample_delivers [OF p(4)] by metis
  obtain bs where bs: "invoke_frame 4 ''echo'' ''run'' [7] = Ok bs"
    using invoke_frame_Ok [of "''echo''" "''run''" "[7]" 4] by (auto simp: MaxFrameSize_def MaxVarint_def)
  let ?opA = "(sample_stream [])\<lparr>s_ID := 4\<rparr>" and ?opB = "(sample_stream bs)\<lparr>s_ID := 4\<rparr>"
  let ?qa = "\<lparr>q_open = two_streams (sample_stream hB) ?opA, q_accept = (\<lambda>_. Err EOF), q_opened = 0, q_accepted = 0, q_closed = False\<rparr>"
  let ?qb = "\<lparr>q_open = (\<lambda>_. Err EOF), q_accept = two_streams (sample_stream hA) ?opB, q_opened = 0, q_accepted = 0, q_closed = False\<rparr>"
  let ?l = "\<lparr>l_ql = \<lparr>ql_accept = (\<lambda>_. Ok ?qb), ql_accepted = 0, ql_addr = ''localhost:4433'', ql_closed = False\<rparr>\<rparr>"
  have paired: "paired ?qa ?qb (sample_stream hB) (sample_stream hA) ?opA ?opB"
    by (simp add: paired_def two_streams_def) (simp add: sample_stream_def MaxVarint_def)
  have n: "n_agents ?n ''echo'' = Some (\<lambda>iv. (None, inv_Op iv))" "n_cfg ?n = sample_cfg True ?b" by simp_all
  have q: "(\<lambda>_ _. Ok ?qa) ''localhost:4433'' () = Ok ?qa" "ql_accept (l_ql ?l) (ql_accepted (l_ql ?l)) = Ok ?qb" by simp_all
  have comp: "compatible (nc_Capabilities (sample_cfg True ?a)) (nc_Capabilities (sample_cfg True ?b))"
    by (simp add: sample_cfg_def compatible_def)
  have len: "length ''echo'' + length ''run'' + length [7 :: byte] + 16 \<le> unat MaxFrameSize" by (simp add: MaxFrameSize_def)
  have bs': "invoke_frame (s_ID ?opA) ''echo'' ''run'' [7] = Ok bs" "concat (rd_chunks (s_in ?opB)) = bs @ []"
    using bs by (simp_all add: sample_stream_def)
  have h: "honest_node sample_env ?a (sample_cfg True ?a) (replicate 16 7)"
      "honest_node sample_env ?b (n_cfg ?n) (replicate 16 7)"
    using sample_honest [of ?a True] sample_honest [of ?b True] by simp_all
  have g: "grants sample_env (sample_cfg True ?a) sample_env ?b (replicate 16 7)"
      "grants sample_env (n_cfg ?n) sample_env ?a (replicate 16 7)"
    using sample_grants [of True ?a ?b] sample_grants [of True ?b ?a] by simp_all
  note t = authenticated_invocation [where dialAddr = "\<lambda>_ _. Ok ?qa" and addr = "''localhost:4433''" and tls = "()" and n = ?n,
      OF h g p(1) _ d _ q paired n(1) len bs', unfolded n(2), OF p(3) comp]
  have "e_public sample_env ?a = ?a" by (simp add: sample_env_def)
  with t show ?thesis by (metis fst_conv)
qed

section \<open>Decoded values\<close>

text \<open>
  C12 (decoders are typed).  Whatever a peer sends, a value that a decoder returns is
  well-formed and encoding it does not panic; for the formats that carry their own length
  the encoding is no longer than the bytes that were read.  Decoding the encoding gives the
  value back for frames, signature blocks, CANCEL, INVOKE and HELLO; for a budget it does so
  exactly when some field is set: the empty budget, which a payload of unknown fields only
  decodes to, is encoded with zero entries, and that is refused.
\<close>

theorem decoded_values_wellformed:
  "(Decode data = Ok (f, n) \<longrightarrow> Frame_wf f \<and>
      (\<exists>bs. Frame_Encode f = Ok bs \<and> Decode bs = Ok (f, length bs) \<and> length bs \<le> n)) \<and>
   (DecodeSignatureBlock data = Ok (sb, n) \<longrightarrow> SignatureBlock_wf sb \<and>
      (\<exists>bs. SignatureBlock_Encode sb = Ok bs \<and> DecodeSignatureBlock bs = Ok (sb, length bs) \<and> length bs \<le> n)) \<and>
   (DecodeCancel data = Ok c \<longrightarrow> (\<exists>bs. Cancel_Encode c = Ok bs \<and> DecodeCancel bs = Ok c)) \<and>
   (DecodeBudget data = Ok b \<longrightarrow>
      (\<exists>bs. Budget_Encode b = Ok bs \<and> (DecodeBudget bs = Ok b \<longleftrightarrow> b \<noteq> empty_Budget))) \<and>
   (decodeInvokePayload data = Ok (agentID, opName, args) \<longrightarrow>
      (\<exists>bs. encodeInvokePayload agentID opName args = Ok bs \<and> decodeInvokePayload bs = Ok (agentID, opName, args))) \<and>
   (decodeHelloPayloadV02 data = Ok (ver, nodeID, caps, trailing) \<longrightarrow>
      (\<exists>inner. encodeHelloInner ver nodeID caps = Ok inner \<and>
               decodeHelloPayloadV02 (inner @ trailing) = Ok (ver, nodeID, caps, trailing)))"
  using frame_canonical.dec_wf frame_canonical.reencode sigblock_canonical.dec_wf sigblock_canonical.reencode
    cancel_typed.payload_reencode budget_reencode [of data b]
    invoke_typed.payload_reencode [of data "(agentID, opName, args)"]
    decodeHello_wf [of data ver nodeID caps trailing] encodeHelloInner_Ok hello_roundtrip
  by fastforce

theorem decoded_values_wellformed_witness:
  "Decode [0x09, 0, 0x40, 0, 0] = Ok (\<lparr>f_Type = FrameGoodbye, f_Flags = 0, f_OpID = 0, f_Payload = []\<rparr>, 5) \<and>
   (\<exists>bs. Frame_Encode \<lparr>f_Type = FrameGoodbye, f_Flags = 0, f_OpID = 0, f_Payload = []\<rparr> = Ok bs \<and> length bs \<le> 5) \<and>
   DecodeBudget [1, 9, 0] = Ok empty_Budget \<and> (\<exists>bs. Budget_Encode empty_Budget = Ok bs \<and> DecodeBudget bs \<noteq> Ok empty_Budget)"
proof -
  let ?f = "\<lparr>f_Type = FrameGoodbye, f_Flags = 0, f_OpID = 0, f_Payload = []\<rparr>"
  have d: "Decode [0x09, 0, 0x40, 0, 0] = Ok (?f, 5)"
    by (simp add: Decode_def from_pos_def ReadVarint_def subslice_def index_def MaxFrameSize_def)
  have b: "DecodeBudget [1, 9, 0] = Ok empty_Budget" by (rule DecodeBudget_unknown)
  have "\<exists>bs. Frame_Encode ?f = Ok bs \<and> length bs \<le> 5"
    using d decoded_values_wellformed [of "[0x09, 0, 0x40, 0, 0]" ?f 5] by blast
  moreover have "\<exists>bs. Budget_Encode empty_Budget = Ok bs \<and> DecodeBudget bs \<noteq> Ok empty_Budget"
    using b decoded_values_wellformed [of "[1, 9, 0]" ?f 0 _ _ empty_Budget] by auto
  ultimately show ?thesis using d b by blast
qed

section \<open>The registry of error codes\<close>

text \<open>The three files share one code space: the codes are 1 to 13, each used once.\<close>

lemma error_codes_distinct:
  "map unat [ErrCodeIncompatibleVersion, ErrCodeMissingRequiredCapability, ErrCodeMalformedFrame, ErrCodeProtocolViolation,
     ErrCodeBadSignature, ErrCodeStaleTimestamp, ErrCodeReplayedNonce, ErrCodeUnresolvableDID, ErrCodeKeyMismatch,
     ErrCodeCancelled, ErrCodeBudgetExceeded, ErrCodeDeadlineExceeded, ErrCodeDelegateFailed] = [1..<14]"
  by (simp add: ErrCodeIncompatibleVersion_def ErrCodeMissingRequiredCapability_def ErrCodeMalformedFrame_def
      ErrCodeProtocolViolation_def ErrCodeBadSignature_def ErrCodeStaleTimestamp_def ErrCodeReplayedNonce_def
      ErrCodeUnresolvableDID_def ErrCodeKeyMismatch_def upt_rec)

end
